theory Spec2Isabelle
  imports Main "HOL-Library.Word"
begin

unbundle bit_operations_syntax

section \<open>A segmented write-ahead log: the record codec\<close>

text \<open>
  The embedding follows \<^verbatim>\<open>model.go\<close> and the memory-mapped revision of the
  coordinator (the last file of \<^verbatim>\<open>src/unnamed/part_000\<close>). Go byte slices are
  lists of 8-bit words, \<^verbatim>\<open>uint32\<close>/\<^verbatim>\<open>uint64\<close>/\<^verbatim>\<open>int64\<close> are 32- and 64-bit words.
  An \<^verbatim>\<open>error\<close> return and a run-time panic are both values of the type \<open>error\<close>.
\<close>

type_synonym byte = "8 word"
type_synonym bytes = "byte list"
type_synonym uint32 = "32 word"
type_synonym uint64 = "64 word"
type_synonym int64 = "64 word"

datatype error = Err string | Panic string

subsection \<open>Constants of \<^verbatim>\<open>model.go\<close>\<close>

definition T_SIZE :: nat where "T_SIZE = 8"
definition C_SIZE :: nat where "C_SIZE = 4"
definition CRC_SIZE :: nat where "CRC_SIZE = T_SIZE + C_SIZE"
definition TOMBSTONE_SIZE :: nat where "TOMBSTONE_SIZE = CRC_SIZE + 1"
definition KEY_SIZE :: nat where "KEY_SIZE = TOMBSTONE_SIZE + T_SIZE"
definition VALUE_SIZE :: nat where "VALUE_SIZE = KEY_SIZE + T_SIZE"
definition WAL_EXT :: string where "WAL_EXT = ''wal''"
definition END_EXT :: string where "END_EXT = ''_END''"

lemmas size_consts = T_SIZE_def C_SIZE_def CRC_SIZE_def TOMBSTONE_SIZE_def KEY_SIZE_def
  VALUE_SIZE_def

subsection \<open>The library functions the codec calls\<close>

text \<open>
  \<^verbatim>\<open>hash/crc32.ChecksumIEEE\<close>: the reflected CRC-32 with polynomial \<open>0xEDB88320\<close>,
  initial value and final complement \<open>0xFFFFFFFF\<close>, one bit at a time.
\<close>

definition crc_step :: "uint32 \<Rightarrow> uint32" where
  "crc_step c = (if bit c 0 then drop_bit 1 c XOR 0xEDB88320 else drop_bit 1 c)"

definition crc_update :: "uint32 \<Rightarrow> byte \<Rightarrow> uint32" where
  "crc_update c b = (crc_step ^^ 8) (c XOR ucast b)"

definition ChecksumIEEE :: "bytes \<Rightarrow> uint32" where
  "ChecksumIEEE bs = NOT (foldl crc_update (NOT 0) bs)"

text \<open>\<^verbatim>\<open>func CRC32(str string) uint32\<close>; the argument is \<^verbatim>\<open>string(value)\<close>, the
  bytes of the value.\<close>

definition CRC32 :: "bytes \<Rightarrow> uint32" where
  "CRC32 str = ChecksumIEEE str"

text \<open>\<^verbatim>\<open>encoding/binary.LittleEndian\<close>: \<^verbatim>\<open>b[0] = byte(v); b[1] = byte(v >> 8); ...\<close>
  and \<^verbatim>\<open>uint32(b[0]) | uint32(b[1])<<8 | ...\<close>.\<close>

definition PutUint32 :: "uint32 \<Rightarrow> bytes" where
  "PutUint32 v = [ucast v, ucast (drop_bit 8 v), ucast (drop_bit 16 v), ucast (drop_bit 24 v)]"

definition Uint32 :: "bytes \<Rightarrow> uint32" where
  "Uint32 b = ucast (b ! 0) OR push_bit 8 (ucast (b ! 1)) OR push_bit 16 (ucast (b ! 2))
     OR push_bit 24 (ucast (b ! 3))"

definition PutUint64 :: "uint64 \<Rightarrow> bytes" where
  "PutUint64 v = [ucast v, ucast (drop_bit 8 v), ucast (drop_bit 16 v), ucast (drop_bit 24 v),
     ucast (drop_bit 32 v), ucast (drop_bit 40 v), ucast (drop_bit 48 v), ucast (drop_bit 56 v)]"

definition Uint64 :: "bytes \<Rightarrow> uint64" where
  "Uint64 b = ucast (b ! 0) OR push_bit 8 (ucast (b ! 1)) OR push_bit 16 (ucast (b ! 2))
     OR push_bit 24 (ucast (b ! 3)) OR push_bit 32 (ucast (b ! 4)) OR push_bit 40 (ucast (b ! 5))
     OR push_bit 48 (ucast (b ! 6)) OR push_bit 56 (ucast (b ! 7))"

text \<open>A Go string is a sequence of bytes; \<^verbatim>\<open>[]byte(key)\<close> and \<^verbatim>\<open>string(b)\<close> copy
  them unchanged.\<close>

definition byte_of_char :: "char \<Rightarrow> byte" where
  "byte_of_char c = of_nat (of_char c)"

definition char_of_byte :: "byte \<Rightarrow> char" where
  "char_of_byte b = char_of (unat b)"

definition bytes_of_string :: "string \<Rightarrow> bytes" where
  "bytes_of_string s = map byte_of_char s"

definition string_of_bytes :: "bytes \<Rightarrow> string" where
  "string_of_bytes b = map char_of_byte b"

text \<open>
  The slice expression \<^verbatim>\<open>a[lo:hi]\<close> on a byte slice. Go checks
  \<^verbatim>\<open>lo <= hi <= cap(a)\<close>, so the first argument is the backing array from the start of
  the slice up to its capacity; outside these bounds the expression panics.
\<close>

definition slice_expr :: "bytes \<Rightarrow> nat \<Rightarrow> nat \<Rightarrow> error + bytes" where
  "slice_expr arr lo hi =
     (if lo \<le> hi \<and> hi \<le> length arr then Inr (take (hi - lo) (drop lo arr))
      else Inl (Panic ''slice bounds out of range''))"

text \<open>Arithmetic on \<^verbatim>\<open>uint64\<close> wraps around.\<close>

definition u64 :: "nat \<Rightarrow> nat" where
  "u64 x = x mod 2 ^ 64"

subsection \<open>Records and entries\<close>

record Entry =
  Crc :: uint32
  Timestamp :: uint64
  Deleted :: bool
  Key :: string
  Value :: bytes

text \<open>The struct \<^verbatim>\<open>T\<close> of a batch; its fields carry the prefix \<open>T_\<close> because
  \<open>Entry\<close> has fields of the same names.\<close>

record T =
  T_Key :: string
  T_Value :: bytes
  T_Deleted :: bool

subsection \<open>\<^verbatim>\<open>Process\<close>: encoding one record\<close>

text \<open>The first argument is the reading \<^verbatim>\<open>uint64(time.Now().Unix())\<close> of the clock.\<close>

definition Process :: "uint64 \<Rightarrow> string \<Rightarrow> bytes \<Rightarrow> bool \<Rightarrow> bytes" where
  "Process sec key val deleted =
     (let data = [];
          crcb = PutUint32 (CRC32 val);
          data = data @ crcb;
          secb = PutUint64 sec;
          data = data @ secb;
          data = (if deleted then data @ [1] else data @ [0]);
          keyb = bytes_of_string key;
          keybs = PutUint64 (of_nat (length keyb));
          valuebs = PutUint64 (of_nat (length val));
          data = data @ keybs;
          data = data @ valuebs;
          data = data @ bytes_of_string key;
          data = data @ val
      in data)"

subsection \<open>\<^verbatim>\<open>convert\<close>: decoding a byte stream\<close>

text \<open>
  The loop of \<^verbatim>\<open>convert\<close>. \<open>arr\<close> is the backing array of \<^verbatim>\<open>data\<close> up to its
  capacity, \<open>n\<close> is \<^verbatim>\<open>len(data)\<close>, \<open>i\<close> the cursor and \<open>rez\<close> the entries so far.
  A length fits a Go \<^verbatim>\<open>int\<close>, so with \<^verbatim>\<open>i < len(data)\<close> the header offsets
  \<^verbatim>\<open>i+C_SIZE\<close> \<dots> \<^verbatim>\<open>i+VALUE_SIZE\<close> do not wrap; the payload offsets add the decoded
  sizes and wrap modulo \<open>2^64\<close>. Indexing \<^verbatim>\<open>data[i+CRC_SIZE]\<close> is checked against the
  length, slicing against the capacity.
\<close>

function convert_loop :: "bytes \<Rightarrow> nat \<Rightarrow> nat \<Rightarrow> Entry list \<Rightarrow> error + Entry list" where
  "convert_loop arr n i rez =
     (if i < n then
        (case slice_expr arr i (i + C_SIZE) of Inl e \<Rightarrow> Inl e | Inr crcb \<Rightarrow>
         case slice_expr arr (i + C_SIZE) (i + CRC_SIZE) of Inl e \<Rightarrow> Inl e | Inr secb \<Rightarrow>
         if \<not> i + CRC_SIZE < n then Inl (Panic ''index out of range'') else
         case slice_expr arr (i + TOMBSTONE_SIZE) (i + KEY_SIZE) of Inl e \<Rightarrow> Inl e | Inr keybs \<Rightarrow>
         case slice_expr arr (i + KEY_SIZE) (i + VALUE_SIZE) of Inl e \<Rightarrow> Inl e | Inr valuebs \<Rightarrow>
         case slice_expr arr (i + VALUE_SIZE) (u64 (i + VALUE_SIZE + unat (Uint64 keybs))) of
           Inl e \<Rightarrow> Inl e | Inr key_data \<Rightarrow>
         case slice_expr arr (u64 (i + VALUE_SIZE + unat (Uint64 keybs)))
                (u64 (i + VALUE_SIZE + unat (Uint64 keybs) + unat (Uint64 valuebs))) of
           Inl e \<Rightarrow> Inl e | Inr val \<Rightarrow>
         convert_loop arr n (u64 (i + VALUE_SIZE + unat (Uint64 keybs) + unat (Uint64 valuebs)))
           (rez @ [\<lparr>Crc = Uint32 crcb, Timestamp = Uint64 secb,
                    Deleted = (arr ! (i + CRC_SIZE) = 1),
                    Key = string_of_bytes key_data, Value = val\<rparr>]))
      else Inr rez)"
  by pat_completeness auto
termination
  by (relation "measure (\<lambda>(arr, n, i, rez). length arr - i)")
     (auto simp: slice_expr_def size_consts split: if_splits)

declare convert_loop.simps [simp del]

text \<open>\<^verbatim>\<open>convert(data)\<close>, for a slice \<^verbatim>\<open>data\<close> whose backing array continues with
  \<open>spare\<close> beyond its length.\<close>

definition convert :: "bytes \<Rightarrow> bytes \<Rightarrow> error + Entry list" where
  "convert data spare =
     (let rez = [] in
      if length data = 0 then Inr rez
      else convert_loop (data @ spare) (length data) 0 rez)"

section \<open>The coordinator and its environment\<close>

subsection \<open>Library functions on strings\<close>

text \<open>\<^verbatim>\<open>strings.HasSuffix\<close> and \<^verbatim>\<open>strings.TrimSuffix\<close>.\<close>

definition HasSuffix :: "string \<Rightarrow> string \<Rightarrow> bool" where
  "HasSuffix s suffix \<longleftrightarrow>
     length suffix \<le> length s \<and> drop (length s - length suffix) s = suffix"

definition TrimSuffix :: "string \<Rightarrow> string \<Rightarrow> string" where
  "TrimSuffix s suffix =
     (if HasSuffix s suffix then take (length s - length suffix) s else s)"

text \<open>\<^verbatim>\<open>filepath.Ext\<close>: the suffix beginning at the final dot of the final element of
  the path. The scan runs from the end and stops at a path separator.\<close>

fun ext_scan :: "string \<Rightarrow> string \<Rightarrow> string" where
  "ext_scan [] acc = []"
| "ext_scan (c # cs) acc =
     (if c = CHR ''/'' then []
      else if c = CHR ''.'' then c # acc
      else ext_scan cs (c # acc))"

definition Ext :: "string \<Rightarrow> string" where
  "Ext p = ext_scan (rev p) []"

text \<open>\<^verbatim>\<open>strings.Replace(s, old, new, -1)\<close> on ASCII strings: every non-overlapping
  occurrence of \<open>old\<close> is replaced, from the left; an empty \<open>old\<close> matches before every
  character and at the end.\<close>

function Replace :: "string \<Rightarrow> string \<Rightarrow> string \<Rightarrow> string" where
  "Replace s old new =
     (if old = [] then new @ concat (map (\<lambda>c. c # new) s)
      else if s = [] then []
      else if take (length old) s = old then new @ Replace (drop (length old) s) old new
      else hd s # Replace (tl s) old new)"
  by pat_completeness auto
termination
  by (relation "measure (\<lambda>(s, old, new). length s)") auto

declare Replace.simps [simp del]

text \<open>Decimal digits: \<^verbatim>\<open>strconv.Itoa\<close> and the verb \<^verbatim>\<open>%d\<close> of \<^verbatim>\<open>fmt.Sprintf\<close>.\<close>

definition digit_char :: "nat \<Rightarrow> char" where
  "digit_char k = ''0123456789'' ! k"

function digits :: "nat \<Rightarrow> string" where
  "digits k = (if k < 10 then [digit_char k] else digits (k div 10) @ [digit_char (k mod 10)])"
  by pat_completeness auto
termination
  by (relation "measure id") auto

declare digits.simps [simp del]

definition Itoa :: "int \<Rightarrow> string" where
  "Itoa k = (if k < 0 then CHR ''-'' # digits (nat (- k)) else digits (nat k))"

text \<open>\<^verbatim>\<open>strconv.ParseInt(s, 10, 64)\<close>: an optional sign, then at least one decimal digit
  and nothing else; a value outside \<^verbatim>\<open>int64\<close> is a range error.\<close>

definition is_digit :: "char \<Rightarrow> bool" where
  "is_digit c \<longleftrightarrow> 48 \<le> (of_char c :: nat) \<and> (of_char c :: nat) \<le> 57"

definition ParseUint :: "string \<Rightarrow> nat option" where
  "ParseUint s =
     (if s = [] \<or> \<not> list_all is_digit s then None
      else Some (foldl (\<lambda>k c. 10 * k + (of_char c - 48)) 0 s))"

definition ParseInt :: "string \<Rightarrow> error + int64" where
  "ParseInt s0 =
     (if s0 = [] then Inl (Err ''invalid syntax'')
      else let neg = (hd s0 = CHR ''-'');
               s = (if hd s0 = CHR ''+'' \<or> hd s0 = CHR ''-'' then tl s0 else s0)
           in case ParseUint s of
                None \<Rightarrow> Inl (Err ''invalid syntax'')
              | Some un \<Rightarrow>
                  if \<not> neg \<and> un \<ge> 2 ^ 63 then Inl (Err ''value out of range'')
                  else if neg \<and> un > 2 ^ 63 then Inl (Err ''value out of range'')
                  else Inr (if neg then - of_nat un else of_nat un))"

subsection \<open>\<^verbatim>\<open>utils.go\<close>\<close>

definition fileNameWithoutExtension :: "string \<Rightarrow> string" where
  "fileNameWithoutExtension fileName = TrimSuffix fileName (Ext fileName)"

definition fileNameWithoutSuffix :: "string \<Rightarrow> string \<Rightarrow> string" where
  "fileNameWithoutSuffix fileName suffix = TrimSuffix fileName suffix"

definition convertIndex :: "string \<Rightarrow> error + int64" where
  "convertIndex index = (case ParseInt index of Inl err \<Rightarrow> Inl err | Inr i \<Rightarrow> Inr i)"

subsection \<open>\<^verbatim>\<open>sort.Search\<close>\<close>

function Search_loop :: "(nat \<Rightarrow> bool) \<Rightarrow> nat \<Rightarrow> nat \<Rightarrow> nat" where
  "Search_loop f i j =
     (if i < j then
        (let h = (i + j) div 2 in
         if \<not> f h then Search_loop f (h + 1) j else Search_loop f i h)
      else i)"
  by pat_completeness auto
termination
  by (relation "measure (\<lambda>(f, i, j). j - i)") auto

declare Search_loop.simps [simp del]

definition Search :: "nat \<Rightarrow> (nat \<Rightarrow> bool) \<Rightarrow> nat" where
  "Search n f = Search_loop f 0 n"

subsection \<open>The state\<close>

text \<open>The struct \<^verbatim>\<open>Segment\<close>.\<close>

record Segment =
  seg_path :: string
  seg_index :: int64
  seg_size :: int64
  seg_data :: bytes

definition SetData :: "bytes \<Rightarrow> Segment \<Rightarrow> Segment" where
  "SetData data s = s\<lparr>seg_data := seg_data s @ data\<rparr>"

definition Append :: "bytes \<Rightarrow> int64 \<Rightarrow> Segment \<Rightarrow> Segment" where
  "Append data sz s = s\<lparr>seg_data := seg_data s @ data, seg_size := seg_size s + sz\<rparr>"

text \<open>
  Modelled from the spec: the handle \<^verbatim>\<open>*fmmap.FMMAP\<close> of the tail writer (package
  \<^verbatim>\<open>github.com/MilosSimic/fmmap\<close>, not part of the sources). The spec's tail writer
  opens a path, creating the file if absent, appends durably, gives a view of the mapped
  content, and closes. A handle is the path it was opened on and whether it was closed.
\<close>

record FMMAP =
  fm_name :: string
  fm_closed :: bool

text \<open>
  Modelled from the spec: the read cache \<^verbatim>\<open>*lru.LRU\<close> (package
  \<^verbatim>\<open>github.com/MilosSimic/lru\<close>, not part of the sources), a bounded mapping with
  \<open>get\<close> and \<open>put\<close>; the most recent entries are kept.
\<close>

record LRU =
  lru_cap :: nat
  lru_items :: "(string \<times> bytes) list"

definition lru_Get :: "LRU \<Rightarrow> string \<Rightarrow> bytes option" where
  "lru_Get c key = map_of (lru_items c) key"

definition lru_Put :: "LRU \<Rightarrow> string \<Rightarrow> bytes \<Rightarrow> LRU" where
  "lru_Put c key v =
     c\<lparr>lru_items := take (lru_cap c) ((key, v) # filter (\<lambda>p. fst p \<noteq> key) (lru_items c))\<rparr>"

text \<open>
  The struct \<^verbatim>\<open>WAL\<close> (without its mutex), extended by the environment the methods act
  on. A \<^verbatim>\<open>*Segment\<close> is the position of the object in \<open>heap\<close>; \<^verbatim>\<open>&Segment{...}\<close>
  allocates at the end of the heap. \<open>files\<close> maps the path of every regular file to its
  content; an operation on a path in \<open>faulty\<close> fails with an I/O error. \<open>printed\<close>
  collects what \<^verbatim>\<open>fmt.Println\<close> writes.
\<close>

record WAL =
  wal_path :: string
  segments :: "nat list"
  tail :: "FMMAP option"
  wal_d :: nat
  lowMark :: int
  lastIndex :: int64
  cache :: LRU

record world = WAL +
  heap :: "Segment list"
  files :: "string \<rightharpoonup> bytes"
  faulty :: "string set"
  printed :: "error list"

text \<open>\<^verbatim>\<open>NewWAL\<close>; its last argument is what \<^verbatim>\<open>lru.NewLRU(cap, nil)\<close> returned.\<close>

definition NewWAL :: "string \<Rightarrow> nat \<Rightarrow> int \<Rightarrow> error + LRU \<Rightarrow> error + WAL" where
  "NewWAL path duration lowMark' lru =
     (case lru of
        Inl err \<Rightarrow> Inl err
      | Inr cache' \<Rightarrow>
          Inr \<lparr>wal_path = path, segments = [], tail = None, wal_d = duration,
               lowMark = lowMark', lastIndex = 0, cache = cache'\<rparr>)"

text \<open>A coordinator placed in a file system, with an empty heap.\<close>

definition boot :: "WAL \<Rightarrow> (string \<rightharpoonup> bytes) \<Rightarrow> string set \<Rightarrow> world" where
  "boot r fs bad =
     \<lparr>wal_path = wal_path r, segments = segments r, tail = tail r, wal_d = wal_d r,
      lowMark = lowMark r, lastIndex = lastIndex r, cache = cache r,
      heap = [], files = fs, faulty = bad, printed = []\<rparr>"

subsection \<open>The operating system and the tail writer\<close>

definition io_error :: error where
  "io_error = Err ''input/output error''"

definition os_Rename :: "string \<Rightarrow> string \<Rightarrow> world \<Rightarrow> error option \<times> world" where
  "os_Rename oldpath newpath w =
     (case files w oldpath of
        None \<Rightarrow> (Some (Err ''no such file or directory''), w)
      | Some content \<Rightarrow>
          if oldpath \<in> faulty w \<or> newpath \<in> faulty w then (Some io_error, w)
          else (None, w\<lparr>files := ((files w)(oldpath := None))(newpath \<mapsto> content)\<rparr>))"

definition os_Remove :: "string \<Rightarrow> world \<Rightarrow> error option \<times> world" where
  "os_Remove name w =
     (case files w name of
        None \<Rightarrow> (Some (Err ''no such file or directory''), w)
      | Some content \<Rightarrow>
          if name \<in> faulty w then (Some io_error, w)
          else (None, w\<lparr>files := (files w)(name := None)\<rparr>))"

text \<open>\<^verbatim>\<open>os.Stat(path)\<close> followed by \<^verbatim>\<open>fi.Size()\<close>.\<close>

definition os_Stat_Size :: "string \<Rightarrow> world \<Rightarrow> error + int64" where
  "os_Stat_Size name w =
     (case files w name of
        None \<Rightarrow> Inl (Err ''no such file or directory'')
      | Some content \<Rightarrow>
          if name \<in> faulty w then Inl io_error else Inr (of_nat (length content)))"

text \<open>Modelled from the spec: \<^verbatim>\<open>fmmap.NewFile(path, os.O_RDWR|os.O_CREATE)\<close>, the tail
  writer's \<open>open\<close>: creates the file if absent and maps it.\<close>

definition fmmap_NewFile :: "string \<Rightarrow> world \<Rightarrow> (error + FMMAP) \<times> world" where
  "fmmap_NewFile name w =
     (if name \<in> faulty w then (Inl io_error, w)
      else (Inr \<lparr>fm_name = name, fm_closed = False\<rparr>,
            case files w name of
              None \<Rightarrow> w\<lparr>files := (files w)(name \<mapsto> [])\<rparr>
            | Some content \<Rightarrow> w))"

text \<open>Modelled from the spec: the tail writer's \<open>update\<close>: appends the bytes to the end of
  the mapped file, or fails and appends nothing.\<close>

definition fmmap_Update :: "FMMAP \<Rightarrow> bytes \<Rightarrow> world \<Rightarrow> error option \<times> world" where
  "fmmap_Update m data w =
     (if fm_closed m then (Some (Err ''file already closed''), w)
      else case files w (fm_name m) of
        None \<Rightarrow> (Some (Err ''no such file or directory''), w)
      | Some content \<Rightarrow>
          if fm_name m \<in> faulty w then (Some io_error, w)
          else (None, w\<lparr>files := (files w)(fm_name m \<mapsto> content @ data)\<rparr>))"

text \<open>Modelled from the spec: the tail writer's \<open>get\<close>, the mapped content.\<close>

definition fmmap_Get :: "FMMAP \<Rightarrow> world \<Rightarrow> bytes" where
  "fmmap_Get m w = (case files w (fm_name m) of None \<Rightarrow> [] | Some content \<Rightarrow> content)"

text \<open>Modelled from the spec: the tail writer's \<open>close\<close>.\<close>

definition fmmap_Close :: "FMMAP \<Rightarrow> FMMAP" where
  "fmmap_Close m = m\<lparr>fm_closed := True\<rparr>"

text \<open>\<^verbatim>\<open>func open(path string)\<close> of \<^verbatim>\<open>model.go\<close>.\<close>

definition open_file :: "string \<Rightarrow> world \<Rightarrow> (error + FMMAP) \<times> world" where
  "open_file path w = fmmap_NewFile path w"

subsection \<open>Methods of \<^verbatim>\<open>model.go\<close>\<close>

definition Close :: "world \<Rightarrow> error option \<times> world" where
  "Close w =
     (case tail w of
        None \<Rightarrow> (Some (Panic ''nil pointer dereference''), w)
      | Some m \<Rightarrow> (None, w\<lparr>tail := Some (fmmap_Close m)\<rparr>))"

definition AppendSegment :: "nat \<Rightarrow> world \<Rightarrow> world" where
  "AppendSegment segment w = w\<lparr>segments := segments w @ [segment]\<rparr>"

text \<open>\<^verbatim>\<open>append(wal.segments[:index], wal.segments[index+1:]...)\<close>; the slice expressions
  panic outside the bounds.\<close>

definition removeIndex :: "int \<Rightarrow> world \<Rightarrow> error option \<times> world" where
  "removeIndex index w =
     (if 0 \<le> index \<and> index + 1 \<le> int (length (segments w))
      then (None, w\<lparr>segments := take (nat index) (segments w) @ drop (nat index + 1) (segments w)\<rparr>)
      else (Some (Panic ''slice bounds out of range''), w))"

definition TailPath :: "world \<Rightarrow> error + string" where
  "TailPath w =
     (case tail w of
        None \<Rightarrow> Inl (Err ''no tail file'')
      | Some m \<Rightarrow> Inr (fm_name m))"

text \<open>\<^verbatim>\<open>Update\<close>: the durable append through the tail writer, then the shadow of the
  segment \<open>s\<close>.\<close>

definition Update :: "bytes \<Rightarrow> nat \<Rightarrow> world \<Rightarrow> error option \<times> world" where
  "Update data s w =
     (case tail w of
        None \<Rightarrow> (Some (Panic ''nil pointer dereference''), w)
      | Some m \<Rightarrow>
          (case fmmap_Update m data w of
             (Some err, w1) \<Rightarrow> (Some err, w1)
           | (None, w1) \<Rightarrow>
               (None, w1\<lparr>heap := (heap w1)[s := Append data (of_nat (length data)) (heap w1 ! s)]\<rparr>)))"

definition findInCache :: "int64 \<Rightarrow> world \<Rightarrow> error + bytes" where
  "findInCache index w =
     (let key = Itoa (sint index) in
      case lru_Get (cache w) key of
        None \<Rightarrow> Inl (Err ''Cache miss!'')
      | Some v \<Rightarrow> Inr v)"

definition cacheit :: "int64 \<Rightarrow> bytes \<Rightarrow> world \<Rightarrow> world" where
  "cacheit index v w =
     (let key = Itoa (sint index) in w\<lparr>cache := lru_Put (cache w) key v\<rparr>)"

subsection \<open>Methods of the coordinator\<close>

text \<open>The path of the segment \<open>index\<close>: \<^verbatim>\<open>fmt.Sprintf(FORMAT_NAME, index)\<close>, its last
  twenty characters, the directory, the end marker and the extension.\<close>

definition newSegment_path :: "string \<Rightarrow> int64 \<Rightarrow> string" where
  "newSegment_path dir index =
     (let temp = ''00000000000000000000'' @ Itoa (sint index);
          temp = drop (length temp - 20) temp;
          temp = dir @ ''/'' @ temp;
          temp = temp @ END_EXT;
          temp = temp @ ''.'' @ WAL_EXT
      in temp)"

text \<open>\<^verbatim>\<open>newSegment\<close>: seals the previous tail, if there is one, and starts the segment
  \<open>lastIndex + 1\<close>. When the rename fails the tail stays closed; when the new file cannot
  be opened the tail is the nil handle that came with the error.\<close>

definition newSegment :: "world \<Rightarrow> (error + nat) \<times> world" where
  "newSegment w =
     (case (case TailPath w of
              Inl err \<Rightarrow> (None, w)
            | Inr prevTail \<Rightarrow>
                (let w1 = w\<lparr>tail := map_option fmmap_Close (tail w)\<rparr>;
                     regularPath = Replace prevTail END_EXT []
                 in os_Rename prevTail regularPath w1)) of
        (Some err, w2) \<Rightarrow> (Inl err, w2)
      | (None, w2) \<Rightarrow>
          (let index = lastIndex w2 + 1;
               temp = newSegment_path (wal_path w2) index
           in case open_file temp w2 of
                (Inl err, w3) \<Rightarrow> (Inl err, w3\<lparr>tail := None\<rparr>)
              | (Inr m, w3) \<Rightarrow>
                  (let segment = length (heap w3);
                       w4 = w3\<lparr>tail := Some m,
                              heap := heap w3 @
                                [\<lparr>seg_path = temp, seg_index = index, seg_size = 0, seg_data = []\<rparr>]\<rparr>;
                       w5 = w4\<lparr>lastIndex := index\<rparr>
                   in (Inr segment, AppendSegment segment w5))))"

definition getSegmentData :: "nat \<Rightarrow> world \<Rightarrow> (error + bytes) \<times> world" where
  "getSegmentData s w =
     (case open_file (seg_path (heap w ! s)) w of
        (Inl err, w1) \<Rightarrow> (Inl err, w1)
      | (Inr mmap, w1) \<Rightarrow> (Inr (fmmap_Get mmap w1), w1))"

text \<open>The index of the segment at position \<open>i\<close> of \<^verbatim>\<open>wal.segments\<close>.\<close>

definition index_at :: "world \<Rightarrow> nat \<Rightarrow> int64" where
  "index_at w i = seg_index (heap w ! (segments w ! i))"

definition getLastSegment :: "world \<Rightarrow> (error + nat) \<times> world" where
  "getLastSegment w =
     (let i = Search (length (segments w)) (\<lambda>i. sint (lastIndex w) \<le> sint (index_at w i)) in
      if i < length (segments w) \<and> index_at w i = lastIndex w
      then (Inr (segments w ! i), w)
      else newSegment w)"

definition findSegment :: "int64 \<Rightarrow> world \<Rightarrow> (error + nat) \<times> world" where
  "findSegment index w =
     (let i = Search (length (segments w)) (\<lambda>i. sint index \<le> sint (index_at w i)) in
      if i < length (segments w) \<and> index_at w i = index
      then (case getSegmentData (segments w ! i) w of
              (Inl err, w1) \<Rightarrow> (Inr (segments w ! i), w1)
            | (Inr data, w1) \<Rightarrow> (Inr (segments w ! i), cacheit index data w1))
      else (Inl (Err ''Segment do not exists''), w))"

definition setupLastSegment :: "world \<Rightarrow> error option \<times> world" where
  "setupLastSegment w =
     (case getLastSegment w of
        (Inl err, w1) \<Rightarrow> (Some err, w1)
      | (Inr lastSegment, w1) \<Rightarrow>
          (case open_file (seg_path (heap w1 ! lastSegment)) w1 of
             (Inl err, w2) \<Rightarrow> (Some err, w2\<lparr>tail := None\<rparr>)
           | (Inr m, w2) \<Rightarrow>
               (None, w2\<lparr>tail := Some m,
                         heap := (heap w2)[lastSegment :=
                           SetData (fmmap_Get m w2) (heap w2 ! lastSegment)]\<rparr>)))"

text \<open>
  \<^verbatim>\<open>Open\<close>. \<^verbatim>\<open>filepath.Walk\<close> calls the function literal once for the root and once
  for every entry below it, in lexical order; a visit is the path and the
  \<^verbatim>\<open>os.FileInfo\<close> of the entry, which is nil when the entry could not be examined.
  The walk stops at the first error the function returns.
\<close>

record FileInfo =
  fi_Name :: string
  fi_IsDir :: bool

definition walkFn :: "string \<Rightarrow> FileInfo option \<Rightarrow> world \<Rightarrow> error option \<times> world" where
  "walkFn path info w =
     (case info of
        None \<Rightarrow> (Some (Panic ''nil pointer dereference''), w)
      | Some fi \<Rightarrow>
          if fi_IsDir fi \<or> Ext path \<noteq> ''.wal'' then (None, w)
          else
            (let name = fileNameWithoutExtension (fi_Name fi) in
             case (if HasSuffix name END_EXT
                   then (case convertIndex (fileNameWithoutSuffix name END_EXT) of
                           Inl err \<Rightarrow> Inl err
                         | Inr i \<Rightarrow> Inr (i, w\<lparr>lastIndex := i\<rparr>))
                   else (case convertIndex name of
                           Inl err \<Rightarrow> Inl err
                         | Inr i \<Rightarrow> Inr (i, w))) of
               Inl err \<Rightarrow> (Some err, w)
             | Inr (i, w1) \<Rightarrow>
                 (case os_Stat_Size path w1 of
                    Inl err \<Rightarrow> (Some err, w1)
                  | Inr sz \<Rightarrow>
                      (let segment = length (heap w1);
                           w2 = w1\<lparr>heap := heap w1 @
                                  [\<lparr>seg_path = path, seg_index = i, seg_size = sz, seg_data = []\<rparr>]\<rparr>
                       in (None, AppendSegment segment w2)))))"

fun Walk :: "(string \<times> FileInfo option) list \<Rightarrow> world \<Rightarrow> error option \<times> world" where
  "Walk [] w = (None, w)"
| "Walk ((path, info) # visits) w =
     (case walkFn path info w of
        (Some err, w1) \<Rightarrow> (Some err, w1)
      | (None, w1) \<Rightarrow> Walk visits w1)"

definition Open :: "(string \<times> FileInfo option) list \<Rightarrow> world \<Rightarrow> error option \<times> world" where
  "Open visits w =
     (case Walk visits w of
        (Some err, w1) \<Rightarrow> (Some err, w1)
      | (None, w1) \<Rightarrow> setupLastSegment w1)"

definition Read :: "int64 \<Rightarrow> world \<Rightarrow> (error + bytes) \<times> world" where
  "Read index w =
     (if sint index \<ge> sint (lastIndex w) then
        (case getLastSegment w of
           (Inl err, w1) \<Rightarrow> (Inl err, w1)
         | (Inr segment, w1) \<Rightarrow> getSegmentData segment w1)
      else
        (case findInCache index w of
           Inr cached \<Rightarrow> (Inr cached, w)
         | Inl err \<Rightarrow>
             (case findSegment index w of
                (Inl err, w1) \<Rightarrow> (Inl err, w1)
              | (Inr segment, w1) \<Rightarrow> getSegmentData segment w1)))"

text \<open>\<^verbatim>\<open>ReadConverted\<close>; the view of the mapping is taken to be a slice without spare
  capacity.\<close>

definition ReadConverted :: "int64 \<Rightarrow> world \<Rightarrow> (error + Entry list) \<times> world" where
  "ReadConverted index w =
     (case Read index w of
        (Inl err, w1) \<Rightarrow> (Inl err, w1)
      | (Inr bs, w1) \<Rightarrow> (convert bs [], w1))"

text \<open>\<^verbatim>\<open>Set\<close>. \<open>clk k\<close> is the reading of the clock in the \<open>k\<close>-th call of
  \<^verbatim>\<open>Process\<close>.\<close>

fun Set_loop :: "(nat \<Rightarrow> uint64) \<Rightarrow> nat \<Rightarrow> T list \<Rightarrow> bytes \<Rightarrow> bytes" where
  "Set_loop clk k [] data = data"
| "Set_loop clk k (t # ts) data =
     (let part = Process (clk k) (T_Key t) (T_Value t) (T_Deleted t)
      in Set_loop clk (Suc k) ts (data @ part))"

definition Set :: "(nat \<Rightarrow> uint64) \<Rightarrow> T list \<Rightarrow> world \<Rightarrow> error option \<times> world" where
  "Set clk ts w =
     (case newSegment w of
        (Inl err, w1) \<Rightarrow> (Some err, w1)
      | (Inr tail', w1) \<Rightarrow>
          (let data = [];
               data = (if length ts = 1
                       then (let t = ts ! 0
                             in data @ Process (clk 0) (T_Key t) (T_Value t) (T_Deleted t))
                       else Set_loop clk 0 ts data)
           in Update data tail' w1))"

text \<open>\<^verbatim>\<open>cleanLog\<close>, one retention sweep. A failed removal is printed and ends the
  sweep.\<close>

function cleanLog_loop :: "int \<Rightarrow> world \<Rightarrow> error option \<times> world" where
  "cleanLog_loop i w =
     (if i \<ge> lowMark w then
        (if i < 0 \<or> i \<ge> int (length (segments w))
         then (Some (Panic ''index out of range''), w)
         else
           (case os_Remove (seg_path (heap w ! (segments w ! nat i))) w of
              (Some err, w1) \<Rightarrow> (None, w1\<lparr>printed := printed w1 @ [err]\<rparr>)
            | (None, w1) \<Rightarrow>
                (case removeIndex i w1 of
                   (Some e, w2) \<Rightarrow> (Some e, w2)
                 | (None, w2) \<Rightarrow> cleanLog_loop (i - 1) w2)))
      else (None, w))"
  by pat_completeness auto
termination
  by (relation "measure (\<lambda>(i, w). nat (i + 1))") auto

declare cleanLog_loop.simps [simp del]

definition cleanLog :: "world \<Rightarrow> error option \<times> world" where
  "cleanLog w = cleanLog_loop (int (length (segments w)) - 1) w"

subsection \<open>Batches of records with their clock readings\<close>

text \<open>A pair is a reading of the clock and the record encoded at that reading: its
  encoding by \<^verbatim>\<open>Process\<close>, and the entry the record stands for.\<close>

definition encode_T :: "uint64 \<times> T \<Rightarrow> bytes" where
  "encode_T p = Process (fst p) (T_Key (snd p)) (T_Value (snd p)) (T_Deleted (snd p))"

definition entry_of :: "uint64 \<times> T \<Rightarrow> Entry" where
  "entry_of p = \<lparr>Crc = CRC32 (T_Value (snd p)), Timestamp = fst p, Deleted = T_Deleted (snd p),
     Key = T_Key (snd p), Value = T_Value (snd p)\<rparr>"

subsection \<open>Auxiliary notions for the statements\<close>

text \<open>The bytes of a batch: the concatenation of the encodings of its records, the
  \<open>k\<close>-th record encoded at the reading \<open>clk k\<close> of the clock.\<close>

definition batch_bytes :: "(nat \<Rightarrow> uint64) \<Rightarrow> T list \<Rightarrow> bytes" where
  "batch_bytes clk ts =
     concat (map (\<lambda>(k, t). Process (clk k) (T_Key t) (T_Value t) (T_Deleted t)) (enumerate 0 ts))"

text \<open>The two halves of \<^verbatim>\<open>newSegment\<close>: sealing the previous tail, and starting the
  new one.\<close>

definition seal_prev :: "world \<Rightarrow> error option \<times> world" where
  "seal_prev w =
     (case TailPath w of
        Inl err \<Rightarrow> (None, w)
      | Inr prevTail \<Rightarrow>
          (let w1 = w\<lparr>tail := map_option fmmap_Close (tail w)\<rparr>;
               regularPath = Replace prevTail END_EXT []
           in os_Rename prevTail regularPath w1))"

definition start_tail :: "world \<Rightarrow> (error + nat) \<times> world" where
  "start_tail w2 =
     (let index = lastIndex w2 + 1;
          temp = newSegment_path (wal_path w2) index
      in case open_file temp w2 of
           (Inl err, w3) \<Rightarrow> (Inl err, w3\<lparr>tail := None\<rparr>)
         | (Inr m, w3) \<Rightarrow>
             (let segment = length (heap w3);
                  w4 = w3\<lparr>tail := Some m,
                         heap := heap w3 @
                           [\<lparr>seg_path = temp, seg_index = index, seg_size = 0, seg_data = []\<rparr>]\<rparr>;
                  w5 = w4\<lparr>lastIndex := index\<rparr>
              in (Inr segment, AppendSegment segment w5)))"

text \<open>An example: a coordinator made by \<^verbatim>\<open>NewWAL\<close> for the directory \<^verbatim>\<open>/wal\<close>,
  the walk of that directory when it is empty, the state after \<^verbatim>\<open>Open\<close> there, and a
  batch of two records.\<close>

definition ex_cache :: LRU where
  "ex_cache = \<lparr>lru_cap = 10, lru_items = []\<rparr>"

definition ex_wal :: WAL where
  "ex_wal = \<lparr>wal_path = ''/wal'', segments = [], tail = None, wal_d = 1, lowMark = 2,
              lastIndex = 0, cache = ex_cache\<rparr>"

definition ex_root :: "(string \<times> FileInfo option) list" where
  "ex_root = [(''/wal'', Some \<lparr>fi_Name = ''wal'', fi_IsDir = True\<rparr>)]"

definition ex_opened :: world where
  "ex_opened = snd (Open ex_root (boot ex_wal Map.empty {}))"

definition ex_batch :: "T list" where
  "ex_batch = [\<lparr>T_Key = ''a'', T_Value = [0x31], T_Deleted = False\<rparr>,
               \<lparr>T_Key = ''b'', T_Value = [0x32], T_Deleted = True\<rparr>]"

text \<open>The path of the segment at position \<open>i\<close> of \<^verbatim>\<open>wal.segments\<close>.\<close>

definition path_at :: "world \<Rightarrow> nat \<Rightarrow> string" where
  "path_at w i = seg_path (heap w ! (segments w ! i))"

text \<open>Two more examples: a coordinator with two sealed segments and a tail and the low
  mark \<open>1\<close>, as \<^verbatim>\<open>Open\<close> and two calls of \<^verbatim>\<open>Set\<close> leave it; and the same with the
  low mark \<open>0\<close> and the file of the second segment stuck.\<close>

definition ex_sweep :: world where
  "ex_sweep =
     \<lparr>wal_path = ''/wal'', segments = [0, 1, 2],
      tail = Some \<lparr>fm_name = ''/wal/00000000000000000003_END.wal'', fm_closed = False\<rparr>,
      wal_d = 1, lowMark = 1, lastIndex = 3, cache = ex_cache,
      heap = [\<lparr>seg_path = ''/wal/00000000000000000001.wal'', seg_index = 1, seg_size = 0,
               seg_data = []\<rparr>,
              \<lparr>seg_path = ''/wal/00000000000000000002.wal'', seg_index = 2, seg_size = 0,
               seg_data = []\<rparr>,
              \<lparr>seg_path = ''/wal/00000000000000000003_END.wal'', seg_index = 3, seg_size = 0,
               seg_data = []\<rparr>],
      files = [''/wal/00000000000000000001.wal'' \<mapsto> [],
               ''/wal/00000000000000000002.wal'' \<mapsto> [],
               ''/wal/00000000000000000003_END.wal'' \<mapsto> []],
      faulty = {}, printed = []\<rparr>"

definition ex_stuck :: world where
  "ex_stuck = ex_sweep\<lparr>lowMark := 0, faulty := {''/wal/00000000000000000002.wal''}\<rparr>"

text \<open>The two examples again with the low mark \<open>-1\<close>.\<close>

definition ex_negative :: world where
  "ex_negative = ex_sweep\<lparr>lowMark := - 1\<rparr>"

definition ex_stuck_negative :: world where
  "ex_stuck_negative = ex_stuck\<lparr>lowMark := - 1\<rparr>"

subsection \<open>The order of the segments\<close>






definition ex_file_visit :: "string \<Rightarrow> string \<times> FileInfo option" where
  "ex_file_visit name = (''/wal/'' @ name, Some \<lparr>fi_Name = name, fi_IsDir = False\<rparr>)"

section \<open>Properties of the codec\<close>

lemma bit_byte_field:
  fixes v :: "'a::len word"
  shows "bit (push_bit k (ucast (ucast (drop_bit k v) :: byte) :: 'a word)) n
           \<longleftrightarrow> k \<le> n \<and> n < k + 8 \<and> bit v n"
  by (auto simp add: bit_simps dest: bit_imp_le_length)

lemma bit_byte_low:
  fixes v :: "'a::len word"
  shows "bit (ucast (ucast v :: byte) :: 'a word) n \<longleftrightarrow> n < 8 \<and> bit v n"
  by (auto simp add: bit_simps dest: bit_imp_le_length)

lemma Uint32_PutUint32: "Uint32 (PutUint32 v) = v"
proof (rule bit_word_eqI)
  fix n assume n: "n < LENGTH(32)"
  have "bit (Uint32 (PutUint32 v)) n \<longleftrightarrow>
    (n < 8 \<and> bit v n) \<or> (8 \<le> n \<and> n < 16 \<and> bit v n) \<or> (16 \<le> n \<and> n < 24 \<and> bit v n)
      \<or> (24 \<le> n \<and> n < 32 \<and> bit v n)"
    unfolding Uint32_def PutUint32_def
    by (simp add: bit_or_iff bit_byte_field bit_byte_low)
  also have "\<dots> \<longleftrightarrow> bit v n \<and> n < 32"
    by linarith
  finally show "bit (Uint32 (PutUint32 v)) n = bit v n"
    using n by simp
qed

lemma Uint64_PutUint64: "Uint64 (PutUint64 v) = v"
proof (rule bit_word_eqI)
  fix n assume n: "n < LENGTH(64)"
  have "bit (Uint64 (PutUint64 v)) n \<longleftrightarrow>
    (n < 8 \<and> bit v n) \<or> (8 \<le> n \<and> n < 16 \<and> bit v n) \<or> (16 \<le> n \<and> n < 24 \<and> bit v n)
      \<or> (24 \<le> n \<and> n < 32 \<and> bit v n) \<or> (32 \<le> n \<and> n < 40 \<and> bit v n)
      \<or> (40 \<le> n \<and> n < 48 \<and> bit v n) \<or> (48 \<le> n \<and> n < 56 \<and> bit v n)
      \<or> (56 \<le> n \<and> n < 64 \<and> bit v n)"
    unfolding Uint64_def PutUint64_def
    by (simp add: bit_or_iff bit_byte_field bit_byte_low)
  also have "\<dots> \<longleftrightarrow> bit v n \<and> n < 64"
    by linarith
  finally show "bit (Uint64 (PutUint64 v)) n = bit v n"
    using n by simp
qed

lemma length_PutUint32: "length (PutUint32 v) = 4"
  by (simp add: PutUint32_def)

lemma length_PutUint64: "length (PutUint64 v) = 8"
  by (simp add: PutUint64_def)

lemma char_of_byte_of_char: "char_of_byte (byte_of_char c) = c"
proof -
  have "unat (of_nat (of_char c) :: byte) = of_char c mod 256"
    by (simp add: unat_of_nat)
  then show ?thesis
    by (simp add: char_of_byte_def byte_of_char_def)
qed

lemma string_of_bytes_of_string: "string_of_bytes (bytes_of_string s) = s"
  by (induction s) (simp_all add: string_of_bytes_def bytes_of_string_def char_of_byte_of_char)

lemma length_bytes_of_string: "length (bytes_of_string s) = length s"
  by (simp add: bytes_of_string_def)

lemma slice_expr_mid:
  "lo = length a \<Longrightarrow> hi = lo + length b \<Longrightarrow> slice_expr (a @ b @ c) lo hi = Inr b"
  by (simp add: slice_expr_def)

lemma convert_loop_frame:
  assumes len: "length crcb = 4" "length secb = 8" "length keybs = 8" "length valuebs = 8"
    and ks: "unat (Uint64 keybs) = length keyd"
    and vs: "unat (Uint64 valuebs) = length val"
    and arr: "arr = pre @ crcb @ secb @ [tomb] @ keybs @ valuebs @ keyd @ val @ rest"
    and n: "length pre + 29 + length keyd + length val \<le> n"
    and bound: "length arr < 2 ^ 64"
  shows "convert_loop arr n (length pre) rez =
         convert_loop arr n (length pre + 29 + length keyd + length val)
           (rez @ [\<lparr>Crc = Uint32 crcb, Timestamp = Uint64 secb, Deleted = (tomb = 1),
                    Key = string_of_bytes keyd, Value = val\<rparr>])"
proof -
  let ?i = "length pre"
  have s1: "slice_expr arr ?i (?i + C_SIZE) = Inr crcb"
    unfolding arr by (rule slice_expr_mid) (simp_all add: len size_consts)
  have s2: "slice_expr arr (?i + C_SIZE) (?i + CRC_SIZE) = Inr secb"
    using slice_expr_mid [of "?i + C_SIZE" "pre @ crcb" "?i + CRC_SIZE" secb]
    by (simp add: arr len size_consts)
  have t: "arr ! (?i + CRC_SIZE) = tomb"
    using nth_append_length [of "pre @ crcb @ secb" tomb]
    by (simp add: arr len size_consts)
  have s3: "slice_expr arr (?i + TOMBSTONE_SIZE) (?i + KEY_SIZE) = Inr keybs"
    using slice_expr_mid [of "?i + TOMBSTONE_SIZE" "pre @ crcb @ secb @ [tomb]" "?i + KEY_SIZE" keybs]
    by (simp add: arr len size_consts)
  have s4: "slice_expr arr (?i + KEY_SIZE) (?i + VALUE_SIZE) = Inr valuebs"
    using slice_expr_mid [of "?i + KEY_SIZE" "pre @ crcb @ secb @ [tomb] @ keybs"
        "?i + VALUE_SIZE" valuebs]
    by (simp add: arr len size_consts)
  have la: "?i + 29 + length keyd + length val \<le> length arr"
    by (simp add: arr len)
  have u1: "u64 (?i + VALUE_SIZE + length keyd) = ?i + 29 + length keyd"
    using la bound by (simp add: u64_def size_consts)
  have u2: "u64 (?i + VALUE_SIZE + length keyd + length val) = ?i + 29 + length keyd + length val"
    using la bound by (simp add: u64_def size_consts)
  have s5: "slice_expr arr (?i + VALUE_SIZE) (?i + 29 + length keyd) = Inr keyd"
    using slice_expr_mid [of "?i + VALUE_SIZE" "pre @ crcb @ secb @ [tomb] @ keybs @ valuebs"
        "?i + 29 + length keyd" keyd]
    by (simp add: arr len size_consts)
  have s6: "slice_expr arr (?i + 29 + length keyd) (?i + 29 + length keyd + length val) = Inr val"
    using slice_expr_mid [of "?i + 29 + length keyd"
        "pre @ crcb @ secb @ [tomb] @ keybs @ valuebs @ keyd"
        "?i + 29 + length keyd + length val" val]
    by (simp add: arr len size_consts)
  have c1: "?i < n" "?i + CRC_SIZE < n"
    using n by (simp_all add: size_consts)
  show ?thesis
    by (subst convert_loop.simps) (simp add: s1 s2 s3 s4 s5 s6 t c1 ks vs u1 u2)
qed

lemma Process_frame:
  "Process sec key val deleted =
     PutUint32 (CRC32 val) @ PutUint64 sec @ [if deleted then 1 else 0]
       @ PutUint64 (of_nat (length key)) @ PutUint64 (of_nat (length val))
       @ bytes_of_string key @ val"
  by (simp add: Process_def Let_def length_bytes_of_string)

lemma length_Process: "length (Process sec key val deleted) = 29 + length key + length val"
  by (simp add: Process_frame length_PutUint32 length_PutUint64 length_bytes_of_string)

lemma encode_T_pair:
  "encode_T (sec, t) = Process sec (T_Key t) (T_Value t) (T_Deleted t)"
  by (simp add: encode_T_def)

lemma length_encode_T: "29 \<le> length (encode_T p)"
  by (simp add: encode_T_def length_Process)

lemma convert_loop_Process:
  assumes arr: "arr = pre @ Process sec key val deleted @ rest"
    and n: "length pre + length (Process sec key val deleted) \<le> n"
    and bound: "length arr < 2 ^ 64"
  shows "convert_loop arr n (length pre) rez =
         convert_loop arr n (length pre + length (Process sec key val deleted))
           (rez @ [\<lparr>Crc = CRC32 val, Timestamp = sec, Deleted = deleted, Key = key, Value = val\<rparr>])"
proof -
  have lk: "length key < 2 ^ 64" and lv: "length val < 2 ^ 64"
    using bound by (simp_all add: arr length_Process)
  have ks: "unat (Uint64 (PutUint64 (of_nat (length key)))) = length (bytes_of_string key)"
    using lk by (simp add: Uint64_PutUint64 unat_of_nat length_bytes_of_string)
  have vs: "unat (Uint64 (PutUint64 (of_nat (length val)))) = length val"
    using lv by (simp add: Uint64_PutUint64 unat_of_nat)
  have tomb: "((if deleted then 1 else 0) = (1::byte)) = deleted"
    by simp
  have a: "arr = pre @ PutUint32 (CRC32 val) @ PutUint64 sec @ [if deleted then 1 else 0]
       @ PutUint64 (of_nat (length key)) @ PutUint64 (of_nat (length val))
       @ bytes_of_string key @ val @ rest"
    by (simp add: arr Process_frame)
  have n': "length pre + 29 + length (bytes_of_string key) + length val \<le> n"
    using n by (simp add: length_Process length_bytes_of_string)
  show ?thesis
    using convert_loop_frame [OF length_PutUint32 length_PutUint64 length_PutUint64
        length_PutUint64 ks vs a n' bound, of rez]
    by (simp only: tomb Uint32_PutUint32 Uint64_PutUint64 string_of_bytes_of_string
        length_Process length_bytes_of_string add.assoc)
qed

lemma convert_loop_done: "convert_loop arr n n rez = Inr rez"
  by (subst convert_loop.simps) simp

lemma convert_loop_stream:
  assumes "arr = pre @ concat (map encode_T rs) @ rest"
    and "n = length pre + length (concat (map encode_T rs))"
    and "length arr < 2 ^ 64"
  shows "convert_loop arr n (length pre) rez = Inr (rez @ map entry_of rs)"
  using assms
proof (induction rs arbitrary: pre rez)
  case Nil
  then show ?case by (simp add: convert_loop_done)
next
  case (Cons r rs)
  obtain sec t where r: "r = (sec, t)" by (cases r)
  let ?enc = "Process sec (T_Key t) (T_Value t) (T_Deleted t)"
  have a: "arr = pre @ ?enc @ (concat (map encode_T rs) @ rest)"
    using Cons.prems(1) by (simp add: r encode_T_pair)
  have n: "length pre + length ?enc \<le> n"
    using Cons.prems(2) by (simp add: r encode_T_pair)
  have step: "convert_loop arr n (length pre) rez =
      convert_loop arr n (length (pre @ ?enc)) (rez @ [entry_of r])"
    using convert_loop_Process [OF a n Cons.prems(3), of rez]
    by (simp add: entry_of_def r)
  have "convert_loop arr n (length (pre @ ?enc)) (rez @ [entry_of r])
      = Inr ((rez @ [entry_of r]) @ map entry_of rs)"
  proof (rule Cons.IH)
    show "arr = (pre @ ?enc) @ concat (map encode_T rs) @ rest"
      using a by simp
    show "n = length (pre @ ?enc) + length (concat (map encode_T rs))"
      using Cons.prems(2) by (simp add: r encode_T_pair)
    show "length arr < 2 ^ 64" by (rule Cons.prems(3))
  qed
  with step show ?case by simp
qed

lemma convert_stream:
  assumes "length (concat (map encode_T rs) @ spare) < 2 ^ 64"
  shows "convert (concat (map encode_T rs)) spare = Inr (map entry_of rs)"
proof (cases "concat (map encode_T rs) = []")
  case True
  then have l0: "length (concat (map encode_T rs)) = 0"
    by (simp only: list.size)
  have "rs = []"
  proof (cases rs)
    case (Cons r rs')
    then have "length (concat (map encode_T rs)) \<ge> 29"
      using length_encode_T [of r] by simp
    with l0 show ?thesis by linarith
  qed simp
  with True show ?thesis by (simp add: convert_def)
next
  case False
  have "convert_loop (concat (map encode_T rs) @ spare) (length (concat (map encode_T rs)))
          (length ([]::bytes)) [] = Inr ([] @ map entry_of rs)"
    by (rule convert_loop_stream) (use assms in simp_all)
  moreover have "length (concat (map encode_T rs)) \<noteq> 0"
    using False by (simp only: length_0_conv not_False_eq_True)
  ultimately show ?thesis
    unfolding convert_def Let_def by (simp only: if_False list.size append_Nil)
qed

lemma u64_ge_imp:
  assumes "a \<le> u64 (a + b)" "b < 2 ^ 64"
  shows "u64 (a + b) = a + b"
proof (rule ccontr)
  assume neq: "u64 (a + b) \<noteq> a + b"
  then have ge: "(2::nat) ^ 64 \<le> a + b"
    by (metis u64_def mod_less not_le_imp_less)
  then have "u64 (a + b) = (a + b - 2 ^ 64) mod 2 ^ 64"
    unfolding u64_def by (rule le_mod_geq)
  also have "\<dots> \<le> a + b - 2 ^ 64"
    by (rule mod_less_eq_dividend)
  also have "\<dots> < a"
    using assms(2) ge by linarith
  finally show False
    using assms(1) by simp
qed

lemma slice_expr_Inr:
  "slice_expr arr lo hi = Inr x \<Longrightarrow> lo \<le> hi \<and> hi \<le> length arr"
  by (simp add: slice_expr_def split: if_splits)

lemma slice_expr_Inl:
  "slice_expr arr lo hi = Inl e \<Longrightarrow> e = Panic ''slice bounds out of range''"
  by (auto simp add: slice_expr_def split: if_splits)

lemma convert_loop_no_Err: "convert_loop arr n i rez \<noteq> Inl (Err msg)"
proof (induction arr n i rez rule: convert_loop.induct)
  case (1 arr n i rez)
  show ?case
    apply (subst convert_loop.simps)
    using 1
    apply (simp add: slice_expr_def split: sum.split)
    done
qed

lemma convert_loop_step:
  assumes "i < n"
  shows "(\<exists>msg. convert_loop arr n i rez = Inl (Panic msg)) \<or>
    (\<exists>crcb secb keybs valuebs key_data val.
       slice_expr arr i (i + C_SIZE) = Inr crcb \<and>
       slice_expr arr (i + C_SIZE) (i + CRC_SIZE) = Inr secb \<and>
       i + CRC_SIZE < n \<and>
       slice_expr arr (i + TOMBSTONE_SIZE) (i + KEY_SIZE) = Inr keybs \<and>
       slice_expr arr (i + KEY_SIZE) (i + VALUE_SIZE) = Inr valuebs \<and>
       slice_expr arr (i + VALUE_SIZE) (u64 (i + VALUE_SIZE + unat (Uint64 keybs))) = Inr key_data \<and>
       slice_expr arr (u64 (i + VALUE_SIZE + unat (Uint64 keybs)))
         (u64 (i + VALUE_SIZE + unat (Uint64 keybs) + unat (Uint64 valuebs))) = Inr val \<and>
       convert_loop arr n i rez =
         convert_loop arr n (u64 (i + VALUE_SIZE + unat (Uint64 keybs) + unat (Uint64 valuebs)))
           (rez @ [\<lparr>Crc = Uint32 crcb, Timestamp = Uint64 secb,
                    Deleted = (arr ! (i + CRC_SIZE) = 1),
                    Key = string_of_bytes key_data, Value = val\<rparr>]))"
  apply (subst convert_loop.simps)
  apply (subst (2) convert_loop.simps)
  using assms
  apply (simp split: sum.split)
  apply (auto dest!: slice_expr_Inl)
  done

lemma convert_loop_short_header:
  assumes "i < n" "length arr < i + 29 \<or> n \<le> i + 12"
  shows "\<exists>msg. convert_loop arr n i rez = Inl (Panic msg)"
  using convert_loop_step [OF assms(1), of arr rez] assms(2)
  by (auto dest!: slice_expr_Inr simp: size_consts)

lemma convert_loop_short_payload:
  assumes "i < n"
    and "slice_expr arr (i + TOMBSTONE_SIZE) (i + KEY_SIZE) = Inr keybs"
    and "slice_expr arr (i + KEY_SIZE) (i + VALUE_SIZE) = Inr valuebs"
    and "length arr < i + VALUE_SIZE + unat (Uint64 keybs) + unat (Uint64 valuebs)"
  shows "\<exists>msg. convert_loop arr n i rez = Inl (Panic msg)"
proof -
  let ?ks = "unat (Uint64 keybs)" and ?vs = "unat (Uint64 valuebs)"
  have ks: "?ks < 2 ^ 64" and vs: "?vs < 2 ^ 64"
    using unsigned_less [of "Uint64 keybs"] unsigned_less [of "Uint64 valuebs"] by simp_all
  have no: "\<not> (i + VALUE_SIZE \<le> u64 (i + VALUE_SIZE + ?ks)
           \<and> u64 (i + VALUE_SIZE + ?ks) \<le> u64 (i + VALUE_SIZE + ?ks + ?vs)
           \<and> u64 (i + VALUE_SIZE + ?ks + ?vs) \<le> length arr)"
  proof
    assume a: "i + VALUE_SIZE \<le> u64 (i + VALUE_SIZE + ?ks)
           \<and> u64 (i + VALUE_SIZE + ?ks) \<le> u64 (i + VALUE_SIZE + ?ks + ?vs)
           \<and> u64 (i + VALUE_SIZE + ?ks + ?vs) \<le> length arr"
    then have h1: "u64 (i + VALUE_SIZE + ?ks) = i + VALUE_SIZE + ?ks"
      using u64_ge_imp [of "i + VALUE_SIZE" ?ks] ks by simp
    with a have "u64 (i + VALUE_SIZE + ?ks + ?vs) = i + VALUE_SIZE + ?ks + ?vs"
      using u64_ge_imp [of "i + VALUE_SIZE + ?ks" ?vs] vs by simp
    with a assms(4) show False by simp
  qed
  from convert_loop_step [OF assms(1), of arr rez] show ?thesis
  proof
    assume "\<exists>crcb secb keybs valuebs key_data val.
       slice_expr arr i (i + C_SIZE) = Inr crcb \<and>
       slice_expr arr (i + C_SIZE) (i + CRC_SIZE) = Inr secb \<and>
       i + CRC_SIZE < n \<and>
       slice_expr arr (i + TOMBSTONE_SIZE) (i + KEY_SIZE) = Inr keybs \<and>
       slice_expr arr (i + KEY_SIZE) (i + VALUE_SIZE) = Inr valuebs \<and>
       slice_expr arr (i + VALUE_SIZE) (u64 (i + VALUE_SIZE + unat (Uint64 keybs))) = Inr key_data \<and>
       slice_expr arr (u64 (i + VALUE_SIZE + unat (Uint64 keybs)))
         (u64 (i + VALUE_SIZE + unat (Uint64 keybs) + unat (Uint64 valuebs))) = Inr val \<and>
       convert_loop arr n i rez =
         convert_loop arr n (u64 (i + VALUE_SIZE + unat (Uint64 keybs) + unat (Uint64 valuebs)))
           (rez @ [\<lparr>Crc = Uint32 crcb, Timestamp = Uint64 secb,
                    Deleted = (arr ! (i + CRC_SIZE) = 1),
                    Key = string_of_bytes key_data, Value = val\<rparr>])"
    then obtain key_data val where
      "slice_expr arr (i + VALUE_SIZE) (u64 (i + VALUE_SIZE + ?ks)) = Inr key_data"
      "slice_expr arr (u64 (i + VALUE_SIZE + ?ks)) (u64 (i + VALUE_SIZE + ?ks + ?vs)) = Inr val"
      using assms(2,3) by auto
    then have "i + VALUE_SIZE \<le> u64 (i + VALUE_SIZE + ?ks)
           \<and> u64 (i + VALUE_SIZE + ?ks) \<le> u64 (i + VALUE_SIZE + ?ks + ?vs)
           \<and> u64 (i + VALUE_SIZE + ?ks + ?vs) \<le> length arr"
      by (auto dest!: slice_expr_Inr)
    with no show ?thesis by simp
  qed simp
qed

section \<open>Properties of the coordinator\<close>

lemma digits_1: "digits (Suc 0) = ''1''" "digits 2 = ''2''"
  by (simp_all add: digits.simps digit_char_def)

lemma newSegment_path_1: "newSegment_path dir 1 = dir @ ''/00000000000000000001_END.wal''"
  by (simp add: newSegment_path_def Let_def END_EXT_def WAL_EXT_def Itoa_def digits_1)

lemma newSegment_path_2: "newSegment_path dir 2 = dir @ ''/00000000000000000002_END.wal''"
  by (simp add: newSegment_path_def Let_def END_EXT_def WAL_EXT_def Itoa_def digits_1)

text \<open>What a rollover without a previous tail does.\<close>

lemma newSegment_no_tail:
  assumes "tail w = None" "newSegment_path (wal_path w) (lastIndex w + 1) \<notin> faulty w"
  shows "newSegment w =
    (Inr (length (heap w)),
     w\<lparr>tail := Some \<lparr>fm_name = newSegment_path (wal_path w) (lastIndex w + 1), fm_closed = False\<rparr>,
       heap := heap w @ [\<lparr>seg_path = newSegment_path (wal_path w) (lastIndex w + 1),
                          seg_index = lastIndex w + 1, seg_size = 0, seg_data = []\<rparr>],
       lastIndex := lastIndex w + 1,
       segments := segments w @ [length (heap w)],
       files := (case files w (newSegment_path (wal_path w) (lastIndex w + 1)) of
                   None \<Rightarrow> (files w)(newSegment_path (wal_path w) (lastIndex w + 1) \<mapsto> [])
                 | Some content \<Rightarrow> files w)\<rparr>)"
  using assms
  by (simp add: newSegment_def TailPath_def open_file_def fmmap_NewFile_def Let_def
      AppendSegment_def split: option.split)


lemma Search_0: "Search 0 f = 0"
  by (simp add: Search_def Search_loop.simps)

lemma Ext_dir: "fi_IsDir fi \<Longrightarrow> walkFn p (Some fi) w = (None, w)"
  by (simp add: walkFn_def)

text \<open>Opening a coordinator without segments and without a tail, when the walk meets
  directories only.\<close>

lemma Open_empty:
  assumes "segments w = []" "tail w = None" "fi_IsDir fi"
    and "newSegment_path (wal_path w) (lastIndex w + 1) \<notin> faulty w"
    and "files w (newSegment_path (wal_path w) (lastIndex w + 1)) = None"
  shows "Open [(p, Some fi)] w =
    (None,
     w\<lparr>tail := Some \<lparr>fm_name = newSegment_path (wal_path w) (lastIndex w + 1), fm_closed = False\<rparr>,
       heap := heap w @ [\<lparr>seg_path = newSegment_path (wal_path w) (lastIndex w + 1),
                          seg_index = lastIndex w + 1, seg_size = 0, seg_data = []\<rparr>],
       lastIndex := lastIndex w + 1,
       segments := [length (heap w)],
       files := (files w)(newSegment_path (wal_path w) (lastIndex w + 1) \<mapsto> [])\<rparr>)"
  using assms
  by (simp add: Open_def Ext_dir setupLastSegment_def getLastSegment_def Search_0
      newSegment_no_tail open_file_def fmmap_NewFile_def fmmap_Get_def SetData_def)

lemma Set_loop_eq:
  "Set_loop clk k ts data =
     data @ concat (map (\<lambda>(k, t). Process (clk k) (T_Key t) (T_Value t) (T_Deleted t))
                      (enumerate k ts))"
  by (induction ts arbitrary: k data) (simp_all add: Let_def)

lemma Set_data_eq:
  "(let data = [];
        data = (if length ts = 1
                then (let t = ts ! 0
                      in data @ Process (clk 0) (T_Key t) (T_Value t) (T_Deleted t))
                else Set_loop clk 0 ts data)
    in f data) = f (batch_bytes clk ts)"
proof (cases "length ts = 1")
  case True
  then obtain t where "ts = [t]"
    by (cases ts) simp_all
  then show ?thesis
    by (simp add: batch_bytes_def)
next
  case False
  then show ?thesis
    by (simp add: batch_bytes_def Set_loop_eq)
qed

lemma Set_unfold:
  "Set clk ts w =
     (case newSegment w of
        (Inl err, w1) \<Rightarrow> (Some err, w1)
      | (Inr tail', w1) \<Rightarrow> Update (batch_bytes clk ts) tail' w1)"
  unfolding Set_def by (simp only: Set_data_eq)

lemma os_Rename_frame:
  "os_Rename a b w = (r, w') \<Longrightarrow>
     heap w' = heap w \<and> segments w' = segments w \<and> lastIndex w' = lastIndex w
     \<and> tail w' = tail w \<and> wal_path w' = wal_path w \<and> faulty w' = faulty w
     \<and> lowMark w' = lowMark w \<and> cache w' = cache w \<and> printed w' = printed w"
  by (auto simp: os_Rename_def split: option.splits if_splits)

lemma newSegment_unfold:
  "newSegment w =
     (case seal_prev w of
        (Some err, w2) \<Rightarrow> (Inl err, w2)
      | (None, w2) \<Rightarrow> start_tail w2)"
  unfolding newSegment_def seal_prev_def start_tail_def by (rule refl)


lemma seal_prev_frame:
  assumes "seal_prev w = (r, w2)"
  shows "heap w2 = heap w \<and> segments w2 = segments w \<and> lastIndex w2 = lastIndex w
     \<and> wal_path w2 = wal_path w \<and> faulty w2 = faulty w
     \<and> lowMark w2 = lowMark w \<and> cache w2 = cache w \<and> printed w2 = printed w"
proof (cases "tail w")
  case None
  with assms show ?thesis
    by (simp add: seal_prev_def TailPath_def)
next
  case (Some m)
  with assms have "os_Rename (fm_name m) (Replace (fm_name m) END_EXT [])
      (w\<lparr>tail := Some (fmmap_Close m)\<rparr>) = (r, w2)"
    by (simp add: seal_prev_def TailPath_def)
  from os_Rename_frame [OF this] show ?thesis
    by simp
qed

lemma start_tail_Inr:
  assumes "start_tail w = (Inr a, w')"
  shows "a = length (heap w)
    \<and> w' = w\<lparr>tail := Some \<lparr>fm_name = newSegment_path (wal_path w) (lastIndex w + 1),
                           fm_closed = False\<rparr>,
             heap := heap w @ [\<lparr>seg_path = newSegment_path (wal_path w) (lastIndex w + 1),
                            seg_index = lastIndex w + 1, seg_size = 0, seg_data = []\<rparr>],
             lastIndex := lastIndex w + 1,
             segments := segments w @ [length (heap w)],
             files := (case files w (newSegment_path (wal_path w) (lastIndex w + 1)) of
                   None \<Rightarrow> (files w)(newSegment_path (wal_path w) (lastIndex w + 1) \<mapsto> [])
                 | Some content \<Rightarrow> files w)\<rparr>
    \<and> newSegment_path (wal_path w) (lastIndex w + 1) \<notin> faulty w"
proof (cases "newSegment_path (wal_path w) (lastIndex w + 1) \<in> faulty w")
  case True
  with assms show ?thesis
    by (simp add: start_tail_def open_file_def fmmap_NewFile_def Let_def)
next
  case False
  with assms show ?thesis
    by (cases "files w (newSegment_path (wal_path w) (lastIndex w + 1))")
      (auto simp add: start_tail_def open_file_def fmmap_NewFile_def Let_def AppendSegment_def)
qed

lemma newSegment_Inr:
  assumes "newSegment w = (Inr a, w')"
  shows "a = length (heap w)
    \<and> segments w' = segments w @ [length (heap w)]
    \<and> lastIndex w' = lastIndex w + 1
    \<and> heap w' = heap w @ [\<lparr>seg_path = newSegment_path (wal_path w) (lastIndex w + 1),
                            seg_index = lastIndex w + 1, seg_size = 0, seg_data = []\<rparr>]
    \<and> tail w' = Some \<lparr>fm_name = newSegment_path (wal_path w) (lastIndex w + 1), fm_closed = False\<rparr>
    \<and> newSegment_path (wal_path w) (lastIndex w + 1) \<notin> faulty w'
    \<and> files w' (newSegment_path (wal_path w) (lastIndex w + 1)) \<noteq> None
    \<and> wal_path w' = wal_path w \<and> lowMark w' = lowMark w \<and> faulty w' = faulty w
    \<and> cache w' = cache w \<and> printed w' = printed w"
proof -
  obtain r w2 where sp: "seal_prev w = (r, w2)"
    by (cases "seal_prev w")
  with assms have st: "start_tail w2 = (Inr a, w')"
    by (cases r) (simp_all add: newSegment_unfold)
  note fr = seal_prev_frame [OF sp]
  note s = start_tail_Inr [OF st]
  from s have w': "w' = w2\<lparr>tail := Some \<lparr>fm_name = newSegment_path (wal_path w2) (lastIndex w2 + 1),
                           fm_closed = False\<rparr>,
             heap := heap w2 @ [\<lparr>seg_path = newSegment_path (wal_path w2) (lastIndex w2 + 1),
                            seg_index = lastIndex w2 + 1, seg_size = 0, seg_data = []\<rparr>],
             lastIndex := lastIndex w2 + 1,
             segments := segments w2 @ [length (heap w2)],
             files := (case files w2 (newSegment_path (wal_path w2) (lastIndex w2 + 1)) of
                   None \<Rightarrow> (files w2)(newSegment_path (wal_path w2) (lastIndex w2 + 1) \<mapsto> [])
                 | Some content \<Rightarrow> files w2)\<rparr>"
    by blast
  have f: "files w' (newSegment_path (wal_path w) (lastIndex w + 1)) \<noteq> None"
    by (subst w') (simp add: fr split: option.split)
  have a: "a = length (heap w)"
    using s fr by simp
  have rest: "segments w' = segments w @ [length (heap w)]"
     "lastIndex w' = lastIndex w + 1"
     "heap w' = heap w @ [\<lparr>seg_path = newSegment_path (wal_path w) (lastIndex w + 1),
                            seg_index = lastIndex w + 1, seg_size = 0, seg_data = []\<rparr>]"
     "tail w' = Some \<lparr>fm_name = newSegment_path (wal_path w) (lastIndex w + 1), fm_closed = False\<rparr>"
     "wal_path w' = wal_path w" "lowMark w' = lowMark w" "faulty w' = faulty w"
     "cache w' = cache w" "printed w' = printed w"
    by (subst w', simp add: fr)+
  have nf: "newSegment_path (wal_path w) (lastIndex w + 1) \<notin> faulty w'"
    using s fr rest(7) by simp
  from a rest f nf show ?thesis
    by blast
qed


lemma Set_after_newSegment:
  assumes "newSegment w = (Inr a, w1)"
  shows "Set clk ts w =
    (None, w1\<lparr>files := (files w1)(newSegment_path (wal_path w) (lastIndex w + 1) \<mapsto>
                 the (files w1 (newSegment_path (wal_path w) (lastIndex w + 1))) @ batch_bytes clk ts),
              heap := heap w @ [\<lparr>seg_path = newSegment_path (wal_path w) (lastIndex w + 1),
                            seg_index = lastIndex w + 1,
                            seg_size = of_nat (length (batch_bytes clk ts)),
                            seg_data = batch_bytes clk ts\<rparr>]\<rparr>)"
proof -
  note n = newSegment_Inr [OF assms]
  let ?P = "newSegment_path (wal_path w) (lastIndex w + 1)"
  from n obtain content where c: "files w1 ?P = Some content"
    by blast
  have u: "fmmap_Update \<lparr>fm_name = ?P, fm_closed = False\<rparr> (batch_bytes clk ts) w1
        = (None, w1\<lparr>files := (files w1)(?P \<mapsto> content @ batch_bytes clk ts)\<rparr>)"
  proof -
    from n have "?P \<notin> faulty w1" by blast
    with c show ?thesis by (simp add: fmmap_Update_def)
  qed
  have "Set clk ts w = Update (batch_bytes clk ts) a w1"
    by (simp add: Set_unfold assms)
  also have "\<dots> = (None, w1\<lparr>files := (files w1)(?P \<mapsto> content @ batch_bytes clk ts),
       heap := (heap w1)[a := Append (batch_bytes clk ts) (of_nat (length (batch_bytes clk ts)))
                 (heap w1 ! a)]\<rparr>)"
  proof -
    from n have "tail w1 = Some \<lparr>fm_name = ?P, fm_closed = False\<rparr>" by blast
    with u show ?thesis by (simp add: Update_def)
  qed
  also have "(heap w1)[a := Append (batch_bytes clk ts) (of_nat (length (batch_bytes clk ts)))
                 (heap w1 ! a)] = heap w @ [\<lparr>seg_path = ?P,
                            seg_index = lastIndex w + 1,
                            seg_size = of_nat (length (batch_bytes clk ts)),
                            seg_data = batch_bytes clk ts\<rparr>]"
  proof -
    from n have "a = length (heap w)" "heap w1 = heap w @ [\<lparr>seg_path = ?P,
                            seg_index = lastIndex w + 1, seg_size = 0, seg_data = []\<rparr>]"
      by blast+
    then show ?thesis by (simp add: Append_def)
  qed
  finally show ?thesis
    by (simp only: c option.sel)
qed

lemma Set_None_iff:
  "fst (Set clk ts w) = None \<longleftrightarrow> (\<exists>a w1. newSegment w = (Inr a, w1))"
proof (cases "newSegment w")
  case (Pair r w1)
  show ?thesis
  proof (cases r)
    case (Inl e)
    with Pair show ?thesis by (simp add: Set_unfold)
  next
    case (Inr a)
    with Pair show ?thesis by (simp add: Set_after_newSegment)
  qed
qed

subsection \<open>The example\<close>

lemma NewWAL_ex: "NewWAL ''/wal'' 1 2 (Inr ex_cache) = Inr ex_wal"
  by (simp add: NewWAL_def ex_wal_def)

lemma ex_opened_eq:
  "Open ex_root (boot ex_wal Map.empty {}) = (None, ex_opened)"
  "ex_opened =
     \<lparr>wal_path = ''/wal'', segments = [0],
      tail = Some \<lparr>fm_name = ''/wal/00000000000000000001_END.wal'', fm_closed = False\<rparr>,
      wal_d = 1, lowMark = 2, lastIndex = 1, cache = ex_cache,
      heap = [\<lparr>seg_path = ''/wal/00000000000000000001_END.wal'', seg_index = 1, seg_size = 0,
               seg_data = []\<rparr>],
      files = [''/wal/00000000000000000001_END.wal'' \<mapsto> []], faulty = {}, printed = []\<rparr>"
proof -
  have "Open ex_root (boot ex_wal Map.empty {}) = (None,
     \<lparr>wal_path = ''/wal'', segments = [0],
      tail = Some \<lparr>fm_name = ''/wal/00000000000000000001_END.wal'', fm_closed = False\<rparr>,
      wal_d = 1, lowMark = 2, lastIndex = 1, cache = ex_cache,
      heap = [\<lparr>seg_path = ''/wal/00000000000000000001_END.wal'', seg_index = 1, seg_size = 0,
               seg_data = []\<rparr>],
      files = [''/wal/00000000000000000001_END.wal'' \<mapsto> []], faulty = {}, printed = []\<rparr>)"
    unfolding ex_root_def
    by (subst Open_empty) (simp_all add: boot_def ex_wal_def newSegment_path_1)
  then show "Open ex_root (boot ex_wal Map.empty {}) = (None, ex_opened)"
    and "ex_opened =
     \<lparr>wal_path = ''/wal'', segments = [0],
      tail = Some \<lparr>fm_name = ''/wal/00000000000000000001_END.wal'', fm_closed = False\<rparr>,
      wal_d = 1, lowMark = 2, lastIndex = 1, cache = ex_cache,
      heap = [\<lparr>seg_path = ''/wal/00000000000000000001_END.wal'', seg_index = 1, seg_size = 0,
               seg_data = []\<rparr>],
      files = [''/wal/00000000000000000001_END.wal'' \<mapsto> []], faulty = {}, printed = []\<rparr>"
    by (simp_all add: ex_opened_def)
qed

lemma Replace_Cons:
  "old \<noteq> [] \<Longrightarrow> take (length old) (c # s) \<noteq> old \<Longrightarrow>
     Replace (c # s) old new = c # Replace s old new"
  by (subst Replace.simps) simp

lemma Replace_match:
  "old \<noteq> [] \<Longrightarrow> Replace (old @ s) old new = new @ Replace s old new"
  by (subst Replace.simps) simp

lemma Replace_Nil: "old \<noteq> [] \<Longrightarrow> Replace [] old new = []"
  by (subst Replace.simps) simp

lemma Replace_ex:
  "Replace ''/wal/00000000000000000001_END.wal'' END_EXT [] = ''/wal/00000000000000000001.wal''"
  using Replace_match [of "''_END''" "''.wal''" "[]"]
  by (simp add: END_EXT_def Replace_Cons Replace_Nil)

lemma newSegment_ex:
  "newSegment ex_opened =
     (Inr 1,
      \<lparr>wal_path = ''/wal'', segments = [0, 1],
      tail = Some \<lparr>fm_name = ''/wal/00000000000000000002_END.wal'', fm_closed = False\<rparr>,
      wal_d = 1, lowMark = 2, lastIndex = 2, cache = ex_cache,
      heap = [\<lparr>seg_path = ''/wal/00000000000000000001_END.wal'', seg_index = 1, seg_size = 0,
               seg_data = []\<rparr>,
              \<lparr>seg_path = ''/wal/00000000000000000002_END.wal'', seg_index = 2, seg_size = 0,
               seg_data = []\<rparr>],
      files = [''/wal/00000000000000000001.wal'' \<mapsto> [],
               ''/wal/00000000000000000002_END.wal'' \<mapsto> []], faulty = {}, printed = []\<rparr>)"
  by (simp add: ex_opened_eq(2) newSegment_unfold seal_prev_def TailPath_def Replace_ex
      os_Rename_def start_tail_def newSegment_path_2 open_file_def fmmap_NewFile_def
      AppendSegment_def fmmap_Close_def fun_upd_twist Let_def)


lemma batch_bytes_ex:
  "batch_bytes clk ex_batch = Process (clk 0) ''a'' [0x31] False @ Process (clk 1) ''b'' [0x32] True"
  by (simp add: batch_bytes_def ex_batch_def enumerate_eq_zip upt_rec)

lemma length_batch_bytes_ex: "length (batch_bytes clk ex_batch) = 62"
  by (simp add: batch_bytes_ex length_Process)

lemma convert_batch_bytes_ex:
  "convert (batch_bytes clk ex_batch) [] =
     Inr [\<lparr>Crc = CRC32 [0x31], Timestamp = clk 0, Deleted = False, Key = ''a'', Value = [0x31]\<rparr>,
          \<lparr>Crc = CRC32 [0x32], Timestamp = clk 1, Deleted = True, Key = ''b'', Value = [0x32]\<rparr>]"
  using convert_stream [of
      "[(clk 0, \<lparr>T_Key = ''a'', T_Value = [0x31], T_Deleted = False\<rparr>),
        (clk 1, \<lparr>T_Key = ''b'', T_Value = [0x32], T_Deleted = True\<rparr>)]" "[]"]
  by (simp add: batch_bytes_ex encode_T_pair entry_of_def length_Process)

lemma Set_ex:
  "Set clk ex_batch ex_opened =
     (None,
      \<lparr>wal_path = ''/wal'', segments = [0, 1],
      tail = Some \<lparr>fm_name = ''/wal/00000000000000000002_END.wal'', fm_closed = False\<rparr>,
      wal_d = 1, lowMark = 2, lastIndex = 2, cache = ex_cache,
      heap = [\<lparr>seg_path = ''/wal/00000000000000000001_END.wal'', seg_index = 1, seg_size = 0,
               seg_data = []\<rparr>,
              \<lparr>seg_path = ''/wal/00000000000000000002_END.wal'', seg_index = 2, seg_size = 62,
               seg_data = batch_bytes clk ex_batch\<rparr>],
      files = [''/wal/00000000000000000001.wal'' \<mapsto> [],
               ''/wal/00000000000000000002_END.wal'' \<mapsto> batch_bytes clk ex_batch],
      faulty = {}, printed = []\<rparr>)"
  by (subst Set_after_newSegment [OF newSegment_ex])
     (simp add: ex_opened_eq(2) newSegment_path_2 length_batch_bytes_ex)

subsection \<open>The retention sweep\<close>

lemma os_Remove_frame:
  "os_Remove p w = (r, w') \<Longrightarrow>
     heap w' = heap w \<and> segments w' = segments w \<and> lastIndex w' = lastIndex w
     \<and> tail w' = tail w \<and> wal_path w' = wal_path w \<and> faulty w' = faulty w
     \<and> lowMark w' = lowMark w \<and> cache w' = cache w \<and> printed w' = printed w"
  by (auto simp: os_Remove_def split: option.splits if_splits)

lemma os_Remove_None:
  "os_Remove p w = (None, w') \<Longrightarrow> w' = w\<lparr>files := (files w)(p := None)\<rparr>"
  by (auto simp: os_Remove_def split: option.splits if_splits)

lemma os_Remove_Some:
  "os_Remove p w = (Some e, w') \<Longrightarrow> w' = w"
  by (auto simp: os_Remove_def split: option.splits if_splits)

lemma os_Remove_printed:
  "fst (os_Remove p (w\<lparr>printed := x\<rparr>)) = fst (os_Remove p w)"
  by (auto simp: os_Remove_def split: option.splits if_splits)

lemma cleanLog_loop_step:
  "cleanLog_loop (int (length (segments w)) - 1) w =
    (if int (length (segments w)) \<le> lowMark w then (None, w)
     else if segments w = [] then (Some (Panic ''index out of range''), w)
     else case os_Remove (path_at w (length (segments w) - 1)) w of
            (Some err, w1) \<Rightarrow> (None, w1\<lparr>printed := printed w1 @ [err]\<rparr>)
          | (None, w1) \<Rightarrow>
              cleanLog_loop (int (length (butlast (segments w))) - 1)
                (w1\<lparr>segments := butlast (segments w)\<rparr>))"
proof (cases "int (length (segments w)) \<le> lowMark w")
  case True
  then show ?thesis
    by (subst cleanLog_loop.simps) simp
next
  case False
  show ?thesis
  proof (cases "segments w = []")
    case True
    with False show ?thesis
      by (subst cleanLog_loop.simps) simp
  next
    case ne: False
    then have n: "0 < length (segments w)"
      by simp
    obtain r w1 where rm: "os_Remove (path_at w (length (segments w) - 1)) w = (r, w1)"
      by (cases "os_Remove (path_at w (length (segments w) - 1)) w")
    note fr = os_Remove_frame [OF rm]
    have nat: "nat (int (length (segments w)) - 1) = length (segments w) - 1"
      by simp
    have bl: "take (length (segments w) - 1) (segments w) @ drop (length (segments w) - 1 + 1) (segments w)
        = butlast (segments w)"
      using n by (simp add: butlast_conv_take)
    have ia: "int (length (segments w) - Suc 0) - 1 = int (length (segments w)) - 2"
      using n by (cases "segments w") simp_all
    show ?thesis
    proof (cases r)
      case (Some e)
      with False ne n rm show ?thesis
        by (subst cleanLog_loop.simps) (simp add: path_at_def nat)
    next
      case None
      with False ne n rm fr bl show ?thesis
        by (subst cleanLog_loop.simps) (simp add: path_at_def nat removeIndex_def ia)
    qed
  qed
qed

text \<open>What one sweep leaves behind: a prefix of the segments, with the files of the
  dropped segments removed and no other file touched. The sweep ends in one of three
  ways. Without a printed failure and with a low mark that is not negative, the prefix
  stops at the low mark. With a printed failure, it stops at the segment whose file
  could not be removed. Without a printed failure and with a negative low mark, every
  segment is dropped and the sweep then indexes \<^verbatim>\<open>wal.segments[-1]\<close>, which
  panics.\<close>

lemma cleanLog_loop_sweep:
  assumes "cleanLog_loop (int (length (segments w)) - 1) w = (r, w')"
  shows "heap w' = heap w \<and> lowMark w' = lowMark w \<and> lastIndex w' = lastIndex w
    \<and> faulty w' = faulty w
    \<and> segments w' = take (length (segments w')) (segments w)
    \<and> length (segments w') \<le> length (segments w)
    \<and> min (nat (lowMark w)) (length (segments w)) \<le> length (segments w')
    \<and> (\<forall>j. length (segments w') \<le> j \<and> j < length (segments w) \<longrightarrow> files w' (path_at w j) = None)
    \<and> (\<forall>p. (\<forall>j. length (segments w') \<le> j \<and> j < length (segments w) \<longrightarrow> p \<noteq> path_at w j)
           \<longrightarrow> files w' p = files w p)
    \<and> ((r = None \<and> 0 \<le> lowMark w \<and> printed w' = printed w
          \<and> length (segments w') = min (nat (lowMark w)) (length (segments w)))
        \<or> (r = None \<and> (\<exists>err. printed w' = printed w @ [err]
              \<and> nat (lowMark w) < length (segments w')
              \<and> fst (os_Remove (path_at w (length (segments w') - 1)) w') = Some err))
        \<or> (r = Some (Panic ''index out of range'') \<and> lowMark w < 0
              \<and> printed w' = printed w \<and> segments w' = []))"
  using assms
proof (induction "length (segments w)" arbitrary: w)
  case 0
  then have e: "segments w = []"
    by simp
  show ?case
  proof (cases "0 \<le> lowMark w")
    case True
    with e cleanLog_loop_step [of w]
    have "cleanLog_loop (int (length (segments w)) - 1) w = (None, w)"
      by simp
    with "0.prems" have "r = None" "w' = w"
      by simp_all
    with e True show ?thesis
      by simp
  next
    case False
    with e cleanLog_loop_step [of w]
    have "cleanLog_loop (int (length (segments w)) - 1) w
        = (Some (Panic ''index out of range''), w)"
      by simp
    with "0.prems" have "r = Some (Panic ''index out of range'')" "w' = w"
      by simp_all
    with e False show ?thesis
      by simp
  qed
next
  case (Suc n)
  let ?n = "length (segments w)"
  have ne: "segments w \<noteq> []"
    using Suc.hyps(2) by auto
  show ?case
  proof (cases "int ?n \<le> lowMark w")
    case True
    with Suc.prems have "r = None" "w' = w"
      by (simp_all add: cleanLog_loop_step)
    with True show ?thesis
      by auto
  next
    case False
    obtain r1 w1 where rm: "os_Remove (path_at w (?n - 1)) w = (r1, w1)"
      by (cases "os_Remove (path_at w (?n - 1)) w")
    show ?thesis
    proof (cases r1)
      case (Some err)
      with rm have w1: "w1 = w"
        by (simp add: os_Remove_Some)
      from Some rm False ne Suc.prems
      have w': "w' = w\<lparr>printed := printed w @ [err]\<rparr>" and r: "r = None"
        by (simp_all add: cleanLog_loop_step w1)
      have "fst (os_Remove (path_at w (?n - 1)) w') = Some err"
        using rm Some by (simp add: w' os_Remove_printed)
      moreover have "0 < ?n"
        using ne by simp
      with False have "nat (lowMark w) < ?n"
        by arith
      ultimately show ?thesis
        by (auto simp add: w' r)
    next
      case None
      with rm have w1: "w1 = w\<lparr>files := (files w)(path_at w (?n - 1) := None)\<rparr>"
        by (simp add: os_Remove_None)
      let ?w2 = "w1\<lparr>segments := butlast (segments w)\<rparr>"
      from None rm False ne Suc.prems
      have rec: "cleanLog_loop (int (length (segments ?w2)) - 1) ?w2 = (r, w')"
        by (simp add: cleanLog_loop_step)
      have len2: "n = length (segments ?w2)"
        using Suc.hyps(2) by simp
      note IH = Suc.hyps(1) [OF len2 rec]
      have pa: "\<And>j. j < n \<Longrightarrow> path_at ?w2 j = path_at w j"
        using Suc.hyps(2) by (simp add: path_at_def w1 nth_butlast)
      have nn: "?n = Suc n" "length (segments ?w2) = n"
        using Suc.hyps(2) by simp_all
      have f2: "files ?w2 = (files w)(path_at w n := None)"
        using nn by (simp add: w1)
      have s2: "segments ?w2 = take n (segments w)"
        using nn by (simp add: butlast_conv_take)
      have h2: "heap ?w2 = heap w" "lowMark ?w2 = lowMark w" "lastIndex ?w2 = lastIndex w"
        "faulty ?w2 = faulty w" "printed ?w2 = printed w"
        by (simp_all add: w1)
      from IH have k: "length (segments w') \<le> n"
        using nn by simp
      from IH have seg: "segments w' = take (length (segments w')) (segments w)"
        using k by (simp add: s2 min_absorb1)
      have removed: "\<forall>j. length (segments w') \<le> j \<and> j < ?n \<longrightarrow> files w' (path_at w j) = None"
      proof (intro allI impI)
        fix j assume j: "length (segments w') \<le> j \<and> j < ?n"
        show "files w' (path_at w j) = None"
        proof (cases "j < n")
          case True
          with IH j pa show ?thesis
            by (simp add: nn)
        next
          case False
          with j nn have jn: "j = n" by simp
          show ?thesis
          proof (cases "\<exists>i. length (segments w') \<le> i \<and> i < n \<and> path_at w n = path_at w i")
            case True
            then obtain i where "length (segments w') \<le> i" "i < n" "path_at w n = path_at w i"
              by blast
            with IH pa show ?thesis
              by (simp add: nn jn)
          next
            case False
            then have "\<forall>i. length (segments w') \<le> i \<and> i < length (segments ?w2)
                \<longrightarrow> path_at w n \<noteq> path_at ?w2 i"
              using pa nn by auto
            with IH have "files w' (path_at w n) = files ?w2 (path_at w n)"
              by blast
            then show ?thesis
              by (simp add: f2 jn)
          qed
        qed
      qed
      have kept: "\<forall>p. (\<forall>j. length (segments w') \<le> j \<and> j < ?n \<longrightarrow> p \<noteq> path_at w j)
           \<longrightarrow> files w' p = files w p"
      proof (intro allI impI)
        fix p assume p: "\<forall>j. length (segments w') \<le> j \<and> j < ?n \<longrightarrow> p \<noteq> path_at w j"
        then have "\<forall>j. length (segments w') \<le> j \<and> j < length (segments ?w2) \<longrightarrow> p \<noteq> path_at ?w2 j"
          using pa nn by auto
        with IH have "files w' p = files ?w2 p"
          by blast
        moreover from p k nn have "p \<noteq> path_at w n"
          by auto
        ultimately show "files w' p = files w p"
          by (simp add: f2)
      qed
      have lo: "min (nat (lowMark w)) ?n \<le> length (segments w')"
        using IH False nn by (simp add: h2)
      have fin: "(r = None \<and> 0 \<le> lowMark w \<and> printed w' = printed w
          \<and> length (segments w') = min (nat (lowMark w)) ?n)
        \<or> (r = None \<and> (\<exists>err. printed w' = printed w @ [err]
              \<and> nat (lowMark w) < length (segments w')
              \<and> fst (os_Remove (path_at w (length (segments w') - 1)) w') = Some err))
        \<or> (r = Some (Panic ''index out of range'') \<and> lowMark w < 0
              \<and> printed w' = printed w \<and> segments w' = [])"
      proof -
        from IH consider
          (a) "r = None \<and> 0 \<le> lowMark ?w2 \<and> printed w' = printed ?w2
            \<and> length (segments w') = min (nat (lowMark ?w2)) (length (segments ?w2))"
          | (b) "r = None \<and> (\<exists>err. printed w' = printed ?w2 @ [err]
                \<and> nat (lowMark ?w2) < length (segments w')
                \<and> fst (os_Remove (path_at ?w2 (length (segments w') - 1)) w') = Some err)"
          | (c) "r = Some (Panic ''index out of range'') \<and> lowMark ?w2 < 0
                \<and> printed w' = printed ?w2 \<and> segments w' = []"
          by blast
        then show ?thesis
        proof cases
          case a
          with False nn show ?thesis
            by (simp add: h2)
        next
          case b
          then obtain err where e: "printed w' = printed ?w2 @ [err]"
            "nat (lowMark ?w2) < length (segments w')"
            "fst (os_Remove (path_at ?w2 (length (segments w') - 1)) w') = Some err"
            and r: "r = None"
            by blast
          from e(2) k have "length (segments w') - 1 < n"
            by linarith
          with e r pa show ?thesis
            by (simp add: h2)
        next
          case c
          then show ?thesis
            by (simp add: h2)
        qed
      qed
      from IH have base: "heap w' = heap w \<and> lowMark w' = lowMark w
          \<and> lastIndex w' = lastIndex w \<and> faulty w' = faulty w"
        by (simp add: h2)
      from base seg k nn lo removed kept fin show ?thesis
        by simp
    qed
  qed
qed

text \<open>The same for a low mark that is not negative, where the sweep cannot panic.\<close>

lemma cleanLog_loop_post:
  assumes "0 \<le> lowMark w"
    and "cleanLog_loop (int (length (segments w)) - 1) w = (r, w')"
  shows "r = None \<and> heap w' = heap w \<and> lowMark w' = lowMark w \<and> lastIndex w' = lastIndex w
    \<and> faulty w' = faulty w
    \<and> segments w' = take (length (segments w')) (segments w)
    \<and> length (segments w') \<le> length (segments w)
    \<and> min (nat (lowMark w)) (length (segments w)) \<le> length (segments w')
    \<and> (\<forall>j. length (segments w') \<le> j \<and> j < length (segments w) \<longrightarrow> files w' (path_at w j) = None)
    \<and> (\<forall>p. (\<forall>j. length (segments w') \<le> j \<and> j < length (segments w) \<longrightarrow> p \<noteq> path_at w j)
           \<longrightarrow> files w' p = files w p)
    \<and> ((printed w' = printed w
          \<and> length (segments w') = min (nat (lowMark w)) (length (segments w)))
        \<or> (\<exists>err. printed w' = printed w @ [err]
              \<and> nat (lowMark w) < length (segments w')
              \<and> fst (os_Remove (path_at w (length (segments w') - 1)) w') = Some err))"
proof -
  note s = cleanLog_loop_sweep [OF assms(2)]
  from s have d: "(r = None \<and> 0 \<le> lowMark w \<and> printed w' = printed w
          \<and> length (segments w') = min (nat (lowMark w)) (length (segments w)))
        \<or> (r = None \<and> (\<exists>err. printed w' = printed w @ [err]
              \<and> nat (lowMark w) < length (segments w')
              \<and> fst (os_Remove (path_at w (length (segments w') - 1)) w') = Some err))
        \<or> (r = Some (Panic ''index out of range'') \<and> lowMark w < 0
              \<and> printed w' = printed w \<and> segments w' = [])"
    by blast
  from d assms(1) have r: "r = None"
    by auto
  from d assms(1) have fin: "(printed w' = printed w
          \<and> length (segments w') = min (nat (lowMark w)) (length (segments w)))
        \<or> (\<exists>err. printed w' = printed w @ [err]
              \<and> nat (lowMark w) < length (segments w')
              \<and> fst (os_Remove (path_at w (length (segments w') - 1)) w') = Some err)"
    by auto
  from s r fin show ?thesis
    by blast
qed

lemma cleanLog_ex_sweep:
  "cleanLog ex_sweep =
     (None, ex_sweep\<lparr>segments := [0],
              files := [''/wal/00000000000000000001.wal'' \<mapsto> []]\<rparr>)"
  by (simp add: cleanLog_def ex_sweep_def)
    ((subst cleanLog_loop.simps, simp add: os_Remove_def removeIndex_def)+)

lemma cleanLog_ex_stuck:
  "cleanLog ex_stuck =
     (None, ex_stuck\<lparr>segments := [0, 1],
              files := [''/wal/00000000000000000001.wal'' \<mapsto> [],
                        ''/wal/00000000000000000002.wal'' \<mapsto> []],
              printed := [io_error]\<rparr>)"
  by (simp add: cleanLog_def ex_sweep_def ex_stuck_def)
    ((subst cleanLog_loop.simps, simp add: os_Remove_def removeIndex_def)+)

lemma cleanLog_ex_negative:
  "cleanLog ex_negative =
     (Some (Panic ''index out of range''), ex_negative\<lparr>segments := [], files := Map.empty\<rparr>)"
  by (simp add: cleanLog_def ex_sweep_def ex_negative_def)
    ((subst cleanLog_loop.simps, simp add: os_Remove_def removeIndex_def)+)

lemma cleanLog_ex_stuck_negative:
  "cleanLog ex_stuck_negative =
     (None, ex_stuck_negative\<lparr>segments := [0, 1],
              files := [''/wal/00000000000000000001.wal'' \<mapsto> [],
                        ''/wal/00000000000000000002.wal'' \<mapsto> []],
              printed := [io_error]\<rparr>)"
  by (simp add: cleanLog_def ex_sweep_def ex_stuck_def ex_stuck_negative_def)
    ((subst cleanLog_loop.simps, simp add: os_Remove_def removeIndex_def)+)


subsection \<open>Finding the tail\<close>






subsection \<open>Keeping the segments in order\<close>










lemma ParseInt_ex:
  "ParseInt ''10'' = Inr 10" "ParseInt ''9'' = Inr 9"
  "ParseInt ''00000000000000000001'' = Inr 1" "ParseInt ''00000000000000000002'' = Inr 2"
  by (simp_all add: ParseInt_def ParseUint_def is_digit_def Let_def)

lemma walk_ex:
  "walkFn (fst (ex_file_visit ''10_END.wal'')) (snd (ex_file_visit ''10_END.wal'')) w =
     (case os_Stat_Size ''/wal/10_END.wal'' (w\<lparr>lastIndex := 10\<rparr>) of
        Inl err \<Rightarrow> (Some err, w\<lparr>lastIndex := 10\<rparr>)
      | Inr sz \<Rightarrow> (None, AppendSegment (length (heap w))
           (w\<lparr>lastIndex := 10, heap := heap w @
              [\<lparr>seg_path = ''/wal/10_END.wal'', seg_index = 10, seg_size = sz, seg_data = []\<rparr>]\<rparr>)))"
  by (simp add: walkFn_def ex_file_visit_def Ext_def fileNameWithoutExtension_def
      fileNameWithoutSuffix_def HasSuffix_def TrimSuffix_def END_EXT_def convertIndex_def
      ParseInt_ex Let_def split: sum.split)













section \<open>The claims\<close>

text \<open>
  C2 (stream round trip). Decoding the concatenation of the encodings of the records
  \<open>r\<^sub>1 \<dots> r\<^sub>n\<close>, each encoded at some reading of the clock, yields exactly the
  \<open>n\<close> entries in order: entry \<open>i\<close> has the key, the value and the deletion flag of
  \<open>r\<^sub>i\<close>, the CRC-32 of its value and the reading of the clock as the timestamp. The
  stream and the spare capacity behind it are shorter than \<open>2^64\<close> bytes, as every Go
  slice is.
\<close>

theorem stream_round_trip:
  fixes rs :: "(uint64 \<times> T) list"
  assumes "length (concat (map (\<lambda>(sec, r). Process sec (T_Key r) (T_Value r) (T_Deleted r)) rs)
             @ spare) < 2 ^ 64"
  shows "convert (concat (map (\<lambda>(sec, r). Process sec (T_Key r) (T_Value r) (T_Deleted r)) rs))
           spare
         = Inr (map (\<lambda>(sec, r). \<lparr>Crc = CRC32 (T_Value r), Timestamp = sec,
                                  Deleted = T_Deleted r, Key = T_Key r, Value = T_Value r\<rparr>) rs)"
proof -
  have e: "(\<lambda>(sec, r). Process sec (T_Key r) (T_Value r) (T_Deleted r)) = encode_T"
    by (simp add: fun_eq_iff encode_T_def)
  have f: "(\<lambda>(sec, r). \<lparr>Crc = CRC32 (T_Value r), Timestamp = sec,
                Deleted = T_Deleted r, Key = T_Key r, Value = T_Value r\<rparr>) = entry_of"
    by (simp add: fun_eq_iff entry_of_def)
  show ?thesis
    using assms unfolding e f by (rule convert_stream)
qed

theorem stream_round_trip_witness:
  "length (concat (map (\<lambda>(sec, r). Process sec (T_Key r) (T_Value r) (T_Deleted r))
       [(7, \<lparr>T_Key = ''a'', T_Value = [0x31], T_Deleted = False\<rparr>),
        (9, \<lparr>T_Key = ''b'', T_Value = [0x32], T_Deleted = True\<rparr>)]) @ [0, 0]) = 64
   \<and> convert (concat (map (\<lambda>(sec, r). Process sec (T_Key r) (T_Value r) (T_Deleted r))
       [(7, \<lparr>T_Key = ''a'', T_Value = [0x31], T_Deleted = False\<rparr>),
        (9, \<lparr>T_Key = ''b'', T_Value = [0x32], T_Deleted = True\<rparr>)])) [0, 0]
     = Inr [\<lparr>Crc = CRC32 [0x31], Timestamp = 7, Deleted = False, Key = ''a'', Value = [0x31]\<rparr>,
            \<lparr>Crc = CRC32 [0x32], Timestamp = 9, Deleted = True, Key = ''b'', Value = [0x32]\<rparr>]"
  using stream_round_trip [of
      "[(7, \<lparr>T_Key = ''a'', T_Value = [0x31], T_Deleted = False\<rparr>),
        (9, \<lparr>T_Key = ''b'', T_Value = [0x32], T_Deleted = True\<rparr>)]" "[0, 0]"]
  by (simp add: length_Process)

text \<open>
  C3, as stated, fails: the decoder has no \<open>CorruptRecord\<close> result. A complete record whose
  CRC field is \<open>1\<close> while the CRC-32 of its (empty) value is \<open>0\<close> is decoded without any
  failure, and a stream of a single byte ends in a run-time panic, not in an error value.
\<close>

theorem decoder_corrupt_counterexample:
  "convert [1, 0, 0, 0,  0, 0, 0, 0, 0, 0, 0, 0,  0,  0, 0, 0, 0, 0, 0, 0, 0,
            0, 0, 0, 0, 0, 0, 0, 0] []
     = Inr [\<lparr>Crc = 1, Timestamp = 0, Deleted = False, Key = [], Value = []\<rparr>]
   \<and> CRC32 [] = 0
   \<and> convert [0] [] = Inl (Panic ''slice bounds out of range'')"
  by (simp add: convert_def convert_loop.simps slice_expr_def size_consts Uint32_def Uint64_def
      u64_def string_of_bytes_def CRC32_def ChecksumIEEE_def)

text \<open>
  C3, amended. The decoder never returns an error value and never compares the CRC field
  with the CRC-32 of the value. At the start of a record (the loop of \<open>convert\<close> at a
  cursor \<open>i\<close> below the length \<open>n\<close>):
  \<^item> when fewer than 29 bytes remain up to the capacity of the slice, or fewer than 13 up to
    its length, the decoder stops with a run-time panic;
  \<^item> when the header can be read and fewer bytes remain, up to the capacity, than the
    payload length the header implies, the decoder stops with a run-time panic;
  \<^item> a complete record is decoded into an entry that carries the stored CRC field,
    whatever the CRC-32 of the value is, and the cursor moves behind the record.
\<close>

theorem decoder_panics_and_ignores_crc:
  "(\<forall>msg. convert_loop arr n i rez \<noteq> Inl (Err msg))
   \<and> (i < n \<and> (length arr < i + 29 \<or> n \<le> i + 12)
        \<longrightarrow> (\<exists>msg. convert_loop arr n i rez = Inl (Panic msg)))
   \<and> (i < n
        \<and> slice_expr arr (i + TOMBSTONE_SIZE) (i + KEY_SIZE) = Inr keybs
        \<and> slice_expr arr (i + KEY_SIZE) (i + VALUE_SIZE) = Inr valuebs
        \<and> length arr < i + VALUE_SIZE + unat (Uint64 keybs) + unat (Uint64 valuebs)
        \<longrightarrow> (\<exists>msg. convert_loop arr n i rez = Inl (Panic msg)))
   \<and> (length crcb = 4 \<and> length secb = 8 \<and> length ksb = 8 \<and> length vsb = 8
        \<and> unat (Uint64 ksb) = length key_data \<and> unat (Uint64 vsb) = length val
        \<and> arr = pre @ crcb @ secb @ [tomb] @ ksb @ vsb @ key_data @ val @ rest
        \<and> length pre + 29 + length key_data + length val \<le> n
        \<and> length arr < 2 ^ 64
        \<longrightarrow> convert_loop arr n (length pre) rez =
            convert_loop arr n (length pre + 29 + length key_data + length val)
              (rez @ [\<lparr>Crc = Uint32 crcb, Timestamp = Uint64 secb, Deleted = (tomb = 1),
                       Key = string_of_bytes key_data, Value = val\<rparr>]))"
proof (intro conjI allI impI)
  fix msg show "convert_loop arr n i rez \<noteq> Inl (Err msg)"
    by (rule convert_loop_no_Err)
next
  assume "i < n \<and> (length arr < i + 29 \<or> n \<le> i + 12)"
  then show "\<exists>msg. convert_loop arr n i rez = Inl (Panic msg)"
    using convert_loop_short_header by blast
next
  assume "i < n
        \<and> slice_expr arr (i + TOMBSTONE_SIZE) (i + KEY_SIZE) = Inr keybs
        \<and> slice_expr arr (i + KEY_SIZE) (i + VALUE_SIZE) = Inr valuebs
        \<and> length arr < i + VALUE_SIZE + unat (Uint64 keybs) + unat (Uint64 valuebs)"
  then show "\<exists>msg. convert_loop arr n i rez = Inl (Panic msg)"
    using convert_loop_short_payload by blast
next
  assume a: "length crcb = 4 \<and> length secb = 8 \<and> length ksb = 8 \<and> length vsb = 8
        \<and> unat (Uint64 ksb) = length key_data \<and> unat (Uint64 vsb) = length val
        \<and> arr = pre @ crcb @ secb @ [tomb] @ ksb @ vsb @ key_data @ val @ rest
        \<and> length pre + 29 + length key_data + length val \<le> n
        \<and> length arr < 2 ^ 64"
  show "convert_loop arr n (length pre) rez =
            convert_loop arr n (length pre + 29 + length key_data + length val)
              (rez @ [\<lparr>Crc = Uint32 crcb, Timestamp = Uint64 secb, Deleted = (tomb = 1),
                       Key = string_of_bytes key_data, Value = val\<rparr>])"
    using a by (intro convert_loop_frame [where keybs = ksb and valuebs = vsb and rest = rest])
      blast+
qed


theorem decoder_panics_and_ignores_crc_witness:
  "(\<exists>msg. convert_loop [0] 1 0 [] = Inl (Panic msg))
   \<and> (\<exists>msg. convert_loop
          [1, 0, 0, 0,  0, 0, 0, 0, 0, 0, 0, 0,  0,  2, 0, 0, 0, 0, 0, 0, 0,
           0, 0, 0, 0, 0, 0, 0, 0,  7] 30 0 [] = Inl (Panic msg))
   \<and> convert_loop
          [1, 0, 0, 0,  0, 0, 0, 0, 0, 0, 0, 0,  0,  1, 0, 0, 0, 0, 0, 0, 0,
           0, 0, 0, 0, 0, 0, 0, 0,  7] 30 0 []
       = convert_loop
          [1, 0, 0, 0,  0, 0, 0, 0, 0, 0, 0, 0,  0,  1, 0, 0, 0, 0, 0, 0, 0,
           0, 0, 0, 0, 0, 0, 0, 0,  7] 30 30
          [\<lparr>Crc = 1, Timestamp = 0, Deleted = False, Key = string_of_bytes [7], Value = []\<rparr>]
   \<and> CRC32 [] = 0"
proof -
  have a: "\<exists>msg. convert_loop [0] 1 0 [] = Inl (Panic msg)"
    using decoder_panics_and_ignores_crc [of "[0]" 1 0 "[]"] by simp
  have b: "\<exists>msg. convert_loop
          [1, 0, 0, 0,  0, 0, 0, 0, 0, 0, 0, 0,  0,  2, 0, 0, 0, 0, 0, 0, 0,
           0, 0, 0, 0, 0, 0, 0, 0,  7] 30 0 [] = Inl (Panic msg)"
    using decoder_panics_and_ignores_crc [of
        "[1, 0, 0, 0,  0, 0, 0, 0, 0, 0, 0, 0,  0,  2, 0, 0, 0, 0, 0, 0, 0,
           0, 0, 0, 0, 0, 0, 0, 0,  7]" 30 0 "[]"
        "[2, 0, 0, 0, 0, 0, 0, 0]" "[0, 0, 0, 0, 0, 0, 0, 0]"]
    by (simp add: slice_expr_def size_consts Uint64_def)
  have c: "convert_loop
          [1, 0, 0, 0,  0, 0, 0, 0, 0, 0, 0, 0,  0,  1, 0, 0, 0, 0, 0, 0, 0,
           0, 0, 0, 0, 0, 0, 0, 0,  7] 30 0 []
       = convert_loop
          [1, 0, 0, 0,  0, 0, 0, 0, 0, 0, 0, 0,  0,  1, 0, 0, 0, 0, 0, 0, 0,
           0, 0, 0, 0, 0, 0, 0, 0,  7] 30 30
          [\<lparr>Crc = 1, Timestamp = 0, Deleted = False, Key = string_of_bytes [7], Value = []\<rparr>]"
    using decoder_panics_and_ignores_crc [of
        "[1, 0, 0, 0,  0, 0, 0, 0, 0, 0, 0, 0,  0,  1, 0, 0, 0, 0, 0, 0, 0,
           0, 0, 0, 0, 0, 0, 0, 0,  7]" 30 0 "[]" _ _
        "[1, 0, 0, 0]" "[0, 0, 0, 0, 0, 0, 0, 0]" "[1, 0, 0, 0, 0, 0, 0, 0]"
        "[0, 0, 0, 0, 0, 0, 0, 0]" "[7]" "[]" "[]" 0 "[]"]
    by (simp add: Uint64_def Uint32_def)
  have d: "CRC32 [] = 0"
    by (simp add: CRC32_def ChecksumIEEE_def)
  from a b c d show ?thesis by blast
qed

text \<open>
  C1 (batch append). For every batch, \<open>Set\<close> encodes each record, concatenates the
  encodings into one buffer and, once its rollover has succeeded, appends that buffer
  with a single call of \<open>Update\<close> to the segment that is then the tail. Starting from the
  coordinator freshly opened on the empty directory, after \<open>Set\<close> of the batch of two
  records with one-byte keys and values the file of the tail segment holds exactly
  \<open>2 * (29 + 1 + 1) = 62\<close> bytes, and decoding it returns both entries in order.
\<close>

theorem Set_batch_append:
  "(\<forall>tail' w1. newSegment w = (Inr tail', w1) \<longrightarrow>
      Set clk ts w =
        Update (concat (map (\<lambda>(k, t). Process (clk k) (T_Key t) (T_Value t) (T_Deleted t))
                          (enumerate 0 ts))) tail' w1)
   \<and> (\<exists>w' content.
         Set clk ex_batch ex_opened = (None, w')
       \<and> tail w' = Some \<lparr>fm_name = ''/wal/00000000000000000002_END.wal'', fm_closed = False\<rparr>
       \<and> heap w' ! last (segments w') =
            \<lparr>seg_path = ''/wal/00000000000000000002_END.wal'', seg_index = 2, seg_size = 62,
             seg_data = content\<rparr>
       \<and> files w' ''/wal/00000000000000000002_END.wal'' = Some content
       \<and> length content = 2 * (29 + 1 + 1)
       \<and> convert content [] =
            Inr [\<lparr>Crc = CRC32 [0x31], Timestamp = clk 0, Deleted = False, Key = ''a'',
                  Value = [0x31]\<rparr>,
                 \<lparr>Crc = CRC32 [0x32], Timestamp = clk 1, Deleted = True, Key = ''b'',
                  Value = [0x32]\<rparr>])"
proof (intro conjI allI impI)
  fix tail' w1 assume "newSegment w = (Inr tail', w1)"
  then show "Set clk ts w =
        Update (concat (map (\<lambda>(k, t). Process (clk k) (T_Key t) (T_Value t) (T_Deleted t))
                          (enumerate 0 ts))) tail' w1"
    by (simp add: Set_unfold batch_bytes_def)
next
  show "\<exists>w' content.
         Set clk ex_batch ex_opened = (None, w')
       \<and> tail w' = Some \<lparr>fm_name = ''/wal/00000000000000000002_END.wal'', fm_closed = False\<rparr>
       \<and> heap w' ! last (segments w') =
            \<lparr>seg_path = ''/wal/00000000000000000002_END.wal'', seg_index = 2, seg_size = 62,
             seg_data = content\<rparr>
       \<and> files w' ''/wal/00000000000000000002_END.wal'' = Some content
       \<and> length content = 2 * (29 + 1 + 1)
       \<and> convert content [] =
            Inr [\<lparr>Crc = CRC32 [0x31], Timestamp = clk 0, Deleted = False, Key = ''a'',
                  Value = [0x31]\<rparr>,
                 \<lparr>Crc = CRC32 [0x32], Timestamp = clk 1, Deleted = True, Key = ''b'',
                  Value = [0x32]\<rparr>]"
    by (intro exI [of _ "batch_bytes clk ex_batch"] exI conjI, rule Set_ex)
      (simp_all add: length_batch_bytes_ex convert_batch_bytes_ex)
qed

theorem Set_batch_append_witness:
  "newSegment ex_opened = (Inr 1, snd (newSegment ex_opened))
   \<and> Set (\<lambda>k. 7) ex_batch ex_opened =
        Update (concat (map (\<lambda>(k, t). Process 7 (T_Key t) (T_Value t) (T_Deleted t))
                          (enumerate 0 ex_batch))) 1 (snd (newSegment ex_opened))"
  using Set_batch_append [of ex_opened "\<lambda>k. 7" ex_batch]
  by (simp add: newSegment_ex)

text \<open>
  C10 (rollover on every Set). Every successful call of \<open>Set\<close>, whatever the batch,
  also a single record or none, first rolls over: exactly one new segment is appended
  to \<open>segments\<close>, \<open>lastIndex\<close> grows by exactly one (in \<^verbatim>\<open>int64\<close>), and the bytes of the
  batch are the shadow of that new segment and the end of its file; the segments that
  existed before keep their shadows.
\<close>

theorem Set_rolls_over:
  assumes "Set clk ts w = (None, w')"
  shows "segments w' = segments w @ [length (heap w)]
    \<and> lastIndex w' = lastIndex w + 1
    \<and> heap w' = heap w @
        [\<lparr>seg_path = newSegment_path (wal_path w) (lastIndex w + 1),
          seg_index = lastIndex w + 1,
          seg_size = of_nat (length (concat (map (\<lambda>(k, t).
              Process (clk k) (T_Key t) (T_Value t) (T_Deleted t)) (enumerate 0 ts)))),
          seg_data = concat (map (\<lambda>(k, t).
              Process (clk k) (T_Key t) (T_Value t) (T_Deleted t)) (enumerate 0 ts))\<rparr>]
    \<and> tail w' = Some \<lparr>fm_name = newSegment_path (wal_path w) (lastIndex w + 1),
                       fm_closed = False\<rparr>
    \<and> (\<exists>old. files w' (newSegment_path (wal_path w) (lastIndex w + 1)) =
          Some (old @ concat (map (\<lambda>(k, t).
              Process (clk k) (T_Key t) (T_Value t) (T_Deleted t)) (enumerate 0 ts))))"
proof -
  from assms have "fst (Set clk ts w) = None"
    by simp
  then obtain a w1 where n: "newSegment w = (Inr a, w1)"
    unfolding Set_None_iff by blast
  note i = newSegment_Inr [OF n]
  from i obtain old where old: "files w1 (newSegment_path (wal_path w) (lastIndex w + 1)) = Some old"
    by blast
  have w': "w' = w1\<lparr>files := (files w1)(newSegment_path (wal_path w) (lastIndex w + 1) \<mapsto>
                 old @ batch_bytes clk ts),
              heap := heap w @ [\<lparr>seg_path = newSegment_path (wal_path w) (lastIndex w + 1),
                            seg_index = lastIndex w + 1,
                            seg_size = of_nat (length (batch_bytes clk ts)),
                            seg_data = batch_bytes clk ts\<rparr>]\<rparr>"
    using assms Set_after_newSegment [OF n, of clk ts] old by simp
  have s: "segments w1 = segments w @ [length (heap w)]" "lastIndex w1 = lastIndex w + 1"
    "tail w1 = Some \<lparr>fm_name = newSegment_path (wal_path w) (lastIndex w + 1),
                       fm_closed = False\<rparr>"
    using i by blast+
  show ?thesis
    unfolding batch_bytes_def [symmetric]
    by (subst w', simp add: s)+
qed

theorem Set_rolls_over_witness:
  "Set (\<lambda>k. 0) [] ex_opened = (None, snd (Set (\<lambda>k. 0) [] ex_opened))
   \<and> segments ex_opened = [0] \<and> lastIndex ex_opened = 1
   \<and> segments (snd (Set (\<lambda>k. 0) [] ex_opened)) = [0, 1]
   \<and> lastIndex (snd (Set (\<lambda>k. 0) [] ex_opened)) = 2
   \<and> seg_data (heap (snd (Set (\<lambda>k. 0) [] ex_opened)) ! 1) = []"
proof -
  have "fst (Set (\<lambda>k. 0) [] ex_opened) = None"
    unfolding Set_None_iff using newSegment_ex by blast
  then have "Set (\<lambda>k. 0) [] ex_opened = (None, snd (Set (\<lambda>k. 0) [] ex_opened))"
    by (metis prod.collapse)
  from Set_rolls_over [OF this] this show ?thesis
    by (simp add: ex_opened_eq(2))
qed

text \<open>
  C4, as stated, fails: \<open>NewWAL\<close> sets \<open>lastIndex\<close> to \<open>0\<close> and the rollover that
  \<open>Open\<close> performs on the empty directory starts the segment \<open>lastIndex + 1\<close>. After
  \<open>Open\<close> there is no file \<^verbatim>\<open>00000000000000000000_END.wal\<close>; the tail file is
  \<^verbatim>\<open>00000000000000000001_END.wal\<close>, the only segment has index \<open>1\<close> and \<open>lastIndex\<close> is
  \<open>1\<close>.
\<close>

theorem Open_fresh_counterexample:
  "NewWAL ''/wal'' 1 2 (Inr ex_cache) = Inr ex_wal
   \<and> Open ex_root (boot ex_wal Map.empty {}) = (None, ex_opened)
   \<and> files ex_opened ''/wal/00000000000000000000_END.wal'' = None
   \<and> files ex_opened ''/wal/00000000000000000001_END.wal'' = Some []
   \<and> map (\<lambda>s. seg_index (heap ex_opened ! s)) (segments ex_opened) = [1]
   \<and> lastIndex ex_opened = 1"
proof (intro conjI)
  show "NewWAL ''/wal'' 1 2 (Inr ex_cache) = Inr ex_wal"
    by (rule NewWAL_ex)
  show "Open ex_root (boot ex_wal Map.empty {}) = (None, ex_opened)"
    by (rule ex_opened_eq(1))
qed (simp_all add: ex_opened_eq(2))

text \<open>
  C4, amended. For a coordinator made by \<open>NewWAL\<close> (no segments, no tail,
  \<open>lastIndex = 0\<close>, the file system untouched) and opened on an empty directory, where the
  walk visits the directory itself only, \<open>Open\<close> creates the tail file
  \<^verbatim>\<open>00000000000000000001_END.wal\<close> of size \<open>0\<close>, leaves \<open>segments\<close> with exactly one
  entry, whose index is \<open>1\<close>, and sets \<open>lastIndex\<close> to \<open>1\<close>.
\<close>

theorem Open_fresh_starts_at_one:
  assumes "NewWAL path duration lm (Inr c) = Inr r"
    and "fi_IsDir fi"
    and "fs (path @ ''/00000000000000000001_END.wal'') = None"
    and "path @ ''/00000000000000000001_END.wal'' \<notin> bad"
  shows "segments r = [] \<and> lastIndex r = 0 \<and> tail r = None
    \<and> (\<exists>w'. Open [(path, Some fi)] (boot r fs bad) = (None, w')
          \<and> files w' = fs(path @ ''/00000000000000000001_END.wal'' \<mapsto> [])
          \<and> map (\<lambda>s. heap w' ! s) (segments w') =
               [\<lparr>seg_path = path @ ''/00000000000000000001_END.wal'', seg_index = 1,
                 seg_size = 0, seg_data = []\<rparr>]
          \<and> tail w' = Some \<lparr>fm_name = path @ ''/00000000000000000001_END.wal'',
                              fm_closed = False\<rparr>
          \<and> lastIndex w' = 1)"
proof -
  from assms(1) have r: "r = \<lparr>wal_path = path, segments = [], tail = None, wal_d = duration,
               lowMark = lm, lastIndex = 0, cache = c\<rparr>"
    by (simp add: NewWAL_def)
  have o: "Open [(path, Some fi)] (boot r fs bad) =
    (None,
     (boot r fs bad)\<lparr>tail := Some \<lparr>fm_name = newSegment_path (wal_path (boot r fs bad))
              (lastIndex (boot r fs bad) + 1), fm_closed = False\<rparr>,
       heap := heap (boot r fs bad) @
          [\<lparr>seg_path = newSegment_path (wal_path (boot r fs bad)) (lastIndex (boot r fs bad) + 1),
            seg_index = lastIndex (boot r fs bad) + 1, seg_size = 0, seg_data = []\<rparr>],
       lastIndex := lastIndex (boot r fs bad) + 1,
       segments := [length (heap (boot r fs bad))],
       files := (files (boot r fs bad))(newSegment_path (wal_path (boot r fs bad))
          (lastIndex (boot r fs bad) + 1) \<mapsto> [])\<rparr>)"
    by (rule Open_empty) (use assms in \<open>simp_all add: r boot_def newSegment_path_1\<close>)
  show ?thesis
    by (subst o) (simp add: r boot_def newSegment_path_1)
qed

theorem Open_fresh_starts_at_one_witness:
  "NewWAL ''/wal'' 1 2 (Inr ex_cache) = Inr ex_wal
   \<and> fi_IsDir \<lparr>fi_Name = ''wal'', fi_IsDir = True\<rparr>
   \<and> (\<exists>w'. Open [(''/wal'', Some \<lparr>fi_Name = ''wal'', fi_IsDir = True\<rparr>)]
             (boot ex_wal Map.empty {}) = (None, w')
          \<and> files w' = [''/wal/00000000000000000001_END.wal'' \<mapsto> []]
          \<and> lastIndex w' = 1)"
proof -
  have "\<exists>w'. Open [(''/wal'', Some \<lparr>fi_Name = ''wal'', fi_IsDir = True\<rparr>)]
             (boot ex_wal Map.empty {}) = (None, w')
          \<and> files w' = [''/wal/00000000000000000001_END.wal'' \<mapsto> []]
          \<and> lastIndex w' = 1"
    using Open_fresh_starts_at_one [OF NewWAL_ex, of
      "\<lparr>fi_Name = ''wal'', fi_IsDir = True\<rparr>" Map.empty "{}"]
    by simp blast
  with NewWAL_ex show ?thesis
    by simp
qed

text \<open>
  C5 (Update is atomic with respect to the shadow). For every buffer and every segment
  \<open>s\<close> of the heap: when the durable append through the tail writer returns an error,
  \<open>Update\<close> returns that error and no segment is changed; when it succeeds, \<open>Update\<close>
  succeeds, the data of \<open>s\<close> is extended by exactly the buffer and its size grows by the
  length of the buffer, and nothing else in the heap changes.
\<close>

theorem Update_atomic:
  assumes "tail w = Some m" and "s < length (heap w)"
  shows "(\<forall>err. fst (fmmap_Update m data w) = Some err \<longrightarrow>
            fst (Update data s w) = Some err \<and> heap (snd (Update data s w)) = heap w)
       \<and> (fst (fmmap_Update m data w) = None \<longrightarrow>
            fst (Update data s w) = None
            \<and> heap (snd (Update data s w)) =
                (heap w)[s := (heap w ! s)\<lparr>seg_data := seg_data (heap w ! s) @ data,
                                           seg_size := seg_size (heap w ! s) + of_nat (length data)\<rparr>]
            \<and> files (snd (Update data s w)) = files (snd (fmmap_Update m data w)))"
proof -
  have h: "heap (snd (fmmap_Update m data w)) = heap w"
    by (simp add: fmmap_Update_def split: option.split)
  obtain r w1 where u: "fmmap_Update m data w = (r, w1)"
    by (cases "fmmap_Update m data w")
  with h have h1: "heap w1 = heap w"
    by simp
  show ?thesis
  proof (cases r)
    case None
    with u h1 assms show ?thesis
      by (simp add: Update_def Append_def)
  next
    case (Some e)
    with u h1 assms show ?thesis
      by (simp add: Update_def)
  qed
qed

theorem Update_atomic_witness:
  "tail ex_opened = Some \<lparr>fm_name = ''/wal/00000000000000000001_END.wal'', fm_closed = False\<rparr>
   \<and> fst (Update [7, 8] 0 ex_opened) = None
   \<and> heap (snd (Update [7, 8] 0 ex_opened)) =
       [\<lparr>seg_path = ''/wal/00000000000000000001_END.wal'', seg_index = 1, seg_size = 2,
         seg_data = [7, 8]\<rparr>]
   \<and> files (snd (Update [7, 8] 0 ex_opened)) ''/wal/00000000000000000001_END.wal'' = Some [7, 8]
   \<and> fst (Update [7, 8] 0 (ex_opened\<lparr>faulty := {''/wal/00000000000000000001_END.wal''}\<rparr>))
       = Some io_error
   \<and> heap (snd (Update [7, 8] 0 (ex_opened\<lparr>faulty := {''/wal/00000000000000000001_END.wal''}\<rparr>)))
       = heap ex_opened"
proof -
  let ?m = "\<lparr>fm_name = ''/wal/00000000000000000001_END.wal'', fm_closed = False\<rparr>"
  let ?bad = "ex_opened\<lparr>faulty := {''/wal/00000000000000000001_END.wal''}\<rparr>"
  have t: "tail ex_opened = Some ?m" "tail ?bad = Some ?m"
    and l: "0 < length (heap ex_opened)" "0 < length (heap ?bad)"
    by (simp_all add: ex_opened_eq(2))
  have ok: "fmmap_Update ?m [7, 8] ex_opened =
      (None, ex_opened\<lparr>files := (files ex_opened)(''/wal/00000000000000000001_END.wal'' \<mapsto> [7, 8])\<rparr>)"
    by (simp add: fmmap_Update_def ex_opened_eq(2))
  have bad: "fst (fmmap_Update ?m [7, 8] ?bad) = Some io_error"
    by (simp add: fmmap_Update_def ex_opened_eq(2))
  from Update_atomic [OF t(1) l(1), of "[7, 8]"] Update_atomic [OF t(2) l(2), of "[7, 8]"]
    ok bad t(1)
  show ?thesis
    by (simp add: ex_opened_eq(2))
qed

text \<open>
  C8, as stated, fails for a negative low mark, which \<open>NewWAL\<close> accepts like any other
  \<^verbatim>\<open>int\<close>. With the low mark \<open>-1\<close> and three segments every removal succeeds and
  nothing is printed; the sweep drops all three segments and removes their files, and
  then, at \<open>i = -1\<close>, indexes \<open>segments[-1]\<close> and panics instead of ending with a
  prefix of \<open>segments\<close>.
\<close>

theorem cleanLog_negative_lowMark_counterexample:
  "lowMark ex_negative = - 1 \<and> segments ex_negative = [0, 1, 2]
   \<and> fst (cleanLog ex_negative) = Some (Panic ''index out of range'')
   \<and> printed (snd (cleanLog ex_negative)) = printed ex_negative
   \<and> segments (snd (cleanLog ex_negative)) = []
   \<and> files (snd (cleanLog ex_negative)) ''/wal/00000000000000000001.wal'' = None
   \<and> files (snd (cleanLog ex_negative)) ''/wal/00000000000000000002.wal'' = None
   \<and> files (snd (cleanLog ex_negative)) ''/wal/00000000000000000003_END.wal'' = None"
  by (simp add: cleanLog_ex_negative) (simp add: ex_negative_def ex_sweep_def)

text \<open>
  C8, amended. A sweep takes \<open>i\<close> from \<open>len(segments) - 1\<close> down to \<open>lowMark\<close>,
  removes the file at \<open>segments[i].path\<close> and drops entry \<open>i\<close>. For a low mark that is
  not negative (it counts the segments to keep), after a sweep in which every removal
  succeeds, so that nothing is printed, \<open>segments\<close> is exactly its first
  \<open>min(lowMark, previous length)\<close> entries in their order, the files of the dropped
  entries are gone, and no other file and no segment object has changed.
\<close>

theorem cleanLog_keeps_first_lowMark:
  assumes "0 \<le> lowMark w" and "cleanLog w = (r, w')" and "printed w' = printed w"
  shows "r = None
    \<and> segments w' = take (min (nat (lowMark w)) (length (segments w))) (segments w)
    \<and> (\<forall>i. nat (lowMark w) \<le> i \<and> i < length (segments w) \<longrightarrow>
          files w' (path_at w i) = None)
    \<and> (\<forall>p. (\<forall>i. nat (lowMark w) \<le> i \<and> i < length (segments w) \<longrightarrow> p \<noteq> path_at w i)
          \<longrightarrow> files w' p = files w p)
    \<and> heap w' = heap w"
proof -
  note post = cleanLog_loop_post [OF assms(1) assms(2) [unfolded cleanLog_def]]
  from post assms(3) have len: "length (segments w') = min (nat (lowMark w)) (length (segments w))"
    by auto
  from post have seg: "segments w' = take (length (segments w')) (segments w)"
    by blast
  have a: "\<forall>i. nat (lowMark w) \<le> i \<and> i < length (segments w) \<longrightarrow>
          files w' (path_at w i) = None"
  proof (intro allI impI)
    fix i assume i: "nat (lowMark w) \<le> i \<and> i < length (segments w)"
    then have "length (segments w') \<le> i \<and> i < length (segments w)"
      using len by linarith
    with post show "files w' (path_at w i) = None"
      by blast
  qed
  have b: "\<forall>p. (\<forall>i. nat (lowMark w) \<le> i \<and> i < length (segments w) \<longrightarrow> p \<noteq> path_at w i)
          \<longrightarrow> files w' p = files w p"
  proof (intro allI impI)
    fix p assume p: "\<forall>i. nat (lowMark w) \<le> i \<and> i < length (segments w) \<longrightarrow> p \<noteq> path_at w i"
    have "\<forall>j. length (segments w') \<le> j \<and> j < length (segments w) \<longrightarrow> p \<noteq> path_at w j"
    proof (intro allI impI)
      fix j assume "length (segments w') \<le> j \<and> j < length (segments w)"
      then have "nat (lowMark w) \<le> j \<and> j < length (segments w)"
        using len by linarith
      with p show "p \<noteq> path_at w j"
        by blast
    qed
    with post show "files w' p = files w p"
      by blast
  qed
  from post seg len a b show ?thesis
    by simp
qed

theorem cleanLog_keeps_first_lowMark_witness:
  "lowMark ex_sweep = 1 \<and> segments ex_sweep = [0, 1, 2]
   \<and> cleanLog ex_sweep = (None, snd (cleanLog ex_sweep))
   \<and> printed (snd (cleanLog ex_sweep)) = printed ex_sweep
   \<and> segments (snd (cleanLog ex_sweep)) = [0]
   \<and> files (snd (cleanLog ex_sweep)) ''/wal/00000000000000000002.wal'' = None
   \<and> files (snd (cleanLog ex_sweep)) ''/wal/00000000000000000003_END.wal'' = None
   \<and> files (snd (cleanLog ex_sweep)) ''/wal/00000000000000000001.wal'' = Some []"
proof -
  have c: "cleanLog ex_sweep = (None, snd (cleanLog ex_sweep))"
    by (simp add: cleanLog_ex_sweep)
  have p: "printed (snd (cleanLog ex_sweep)) = printed ex_sweep"
    by (simp add: cleanLog_ex_sweep)
  have l: "0 \<le> lowMark ex_sweep"
    by (simp add: ex_sweep_def)
  note t = cleanLog_keeps_first_lowMark [OF l c p]
  from t have "segments (snd (cleanLog ex_sweep)) = [0]"
    by (simp add: ex_sweep_def)
  moreover from t have "files (snd (cleanLog ex_sweep)) (path_at ex_sweep 1) = None"
    "files (snd (cleanLog ex_sweep)) (path_at ex_sweep 2) = None"
    by (simp_all add: ex_sweep_def)
  moreover from t have "files (snd (cleanLog ex_sweep)) ''/wal/00000000000000000001.wal''
      = files ex_sweep ''/wal/00000000000000000001.wal''"
    by (simp add: ex_sweep_def path_at_def nth_Cons' less_Suc_eq)
  ultimately show ?thesis
    using c p by (simp add: ex_sweep_def path_at_def)
qed

text \<open>
  C9, as stated, fails: a failed removal ends the sweep. With the low mark \<open>0\<close> and the
  file of the second segment stuck, the sweep removes the third segment, prints the
  failure of the second and returns; the first segment is eligible and its file could be
  removed, yet it stays in \<open>segments\<close> and on the disk.
\<close>

theorem cleanLog_stuck_counterexample:
  "lowMark ex_stuck = 0 \<and> segments ex_stuck = [0, 1, 2]
   \<and> fst (cleanLog ex_stuck) = None
   \<and> printed (snd (cleanLog ex_stuck)) = [io_error]
   \<and> segments (snd (cleanLog ex_stuck)) = [0, 1]
   \<and> path_at ex_stuck 0 = ''/wal/00000000000000000001.wal''
   \<and> files (snd (cleanLog ex_stuck)) ''/wal/00000000000000000001.wal'' = Some []
   \<and> fst (os_Remove ''/wal/00000000000000000001.wal'' (snd (cleanLog ex_stuck))) = None"
  by (simp add: cleanLog_ex_stuck) (simp add: ex_stuck_def ex_sweep_def path_at_def os_Remove_def)

text \<open>
  C9, amended. When a per-file removal fails during a retention sweep, whatever the low
  mark, the sweep prints that one failure and stops: the segments above the failing one
  have been dropped and their files removed, the failing segment and all segments below
  it, eligible or not, stay in \<open>segments\<close>, and no file other than those of the dropped
  segments is touched on that tick.
\<close>

theorem cleanLog_stops_at_failure:
  assumes "cleanLog w = (r, w')" and "printed w' \<noteq> printed w"
  shows "r = None
    \<and> (\<exists>err. printed w' = printed w @ [err]
          \<and> fst (os_Remove (path_at w (length (segments w') - 1)) w') = Some err)
    \<and> nat (lowMark w) < length (segments w')
    \<and> length (segments w') \<le> length (segments w)
    \<and> segments w' = take (length (segments w')) (segments w)
    \<and> (\<forall>j. length (segments w') \<le> j \<and> j < length (segments w) \<longrightarrow>
          files w' (path_at w j) = None)
    \<and> (\<forall>p. (\<forall>j. length (segments w') \<le> j \<and> j < length (segments w) \<longrightarrow> p \<noteq> path_at w j)
          \<longrightarrow> files w' p = files w p)
    \<and> heap w' = heap w"
proof -
  note post = cleanLog_loop_sweep [OF assms(1) [unfolded cleanLog_def]]
  from post have "(r = None \<and> 0 \<le> lowMark w \<and> printed w' = printed w
          \<and> length (segments w') = min (nat (lowMark w)) (length (segments w)))
        \<or> (r = None \<and> (\<exists>err. printed w' = printed w @ [err]
              \<and> nat (lowMark w) < length (segments w')
              \<and> fst (os_Remove (path_at w (length (segments w') - 1)) w') = Some err))
        \<or> (r = Some (Panic ''index out of range'') \<and> lowMark w < 0
              \<and> printed w' = printed w \<and> segments w' = [])"
    by blast
  with assms(2) have "r = None \<and> (\<exists>err. printed w' = printed w @ [err]
              \<and> nat (lowMark w) < length (segments w')
              \<and> fst (os_Remove (path_at w (length (segments w') - 1)) w') = Some err)"
    by blast
  with post show ?thesis
    by blast
qed

theorem cleanLog_stops_at_failure_witness:
  "lowMark ex_stuck = 0 \<and> segments ex_stuck = [0, 1, 2]
   \<and> cleanLog ex_stuck = (None, snd (cleanLog ex_stuck))
   \<and> printed ex_stuck = [] \<and> printed (snd (cleanLog ex_stuck)) = [io_error]
   \<and> segments (snd (cleanLog ex_stuck)) = [0, 1]
   \<and> fst (os_Remove (path_at ex_stuck 1) (snd (cleanLog ex_stuck))) = Some io_error
   \<and> lowMark ex_stuck_negative = - 1 \<and> segments ex_stuck_negative = [0, 1, 2]
   \<and> cleanLog ex_stuck_negative = (None, snd (cleanLog ex_stuck_negative))
   \<and> printed ex_stuck_negative = []
   \<and> printed (snd (cleanLog ex_stuck_negative)) = [io_error]
   \<and> segments (snd (cleanLog ex_stuck_negative)) = [0, 1]
   \<and> fst (os_Remove (path_at ex_stuck_negative 1) (snd (cleanLog ex_stuck_negative)))
       = Some io_error"
proof -
  have c: "cleanLog ex_stuck = (None, snd (cleanLog ex_stuck))"
    by (simp add: cleanLog_ex_stuck)
  have p: "printed (snd (cleanLog ex_stuck)) \<noteq> printed ex_stuck"
    by (simp add: cleanLog_ex_stuck) (simp add: ex_stuck_def ex_sweep_def)
  have s: "segments (snd (cleanLog ex_stuck)) = [0, 1]"
    "printed (snd (cleanLog ex_stuck)) = [io_error]"
    by (simp_all add: cleanLog_ex_stuck)
  from cleanLog_stops_at_failure [OF c p] s
  have a: "fst (os_Remove (path_at ex_stuck 1) (snd (cleanLog ex_stuck))) = Some io_error"
    by (simp add: ex_stuck_def ex_sweep_def)
  have c': "cleanLog ex_stuck_negative = (None, snd (cleanLog ex_stuck_negative))"
    by (simp add: cleanLog_ex_stuck_negative)
  have p': "printed (snd (cleanLog ex_stuck_negative)) \<noteq> printed ex_stuck_negative"
    by (simp add: cleanLog_ex_stuck_negative)
      (simp add: ex_stuck_negative_def ex_stuck_def ex_sweep_def)
  have s': "segments (snd (cleanLog ex_stuck_negative)) = [0, 1]"
    "printed (snd (cleanLog ex_stuck_negative)) = [io_error]"
    by (simp_all add: cleanLog_ex_stuck_negative)
  from cleanLog_stops_at_failure [OF c' p'] s'
  have a': "fst (os_Remove (path_at ex_stuck_negative 1) (snd (cleanLog ex_stuck_negative)))
      = Some io_error"
    by (simp add: ex_stuck_negative_def ex_stuck_def ex_sweep_def)
  from c s a c' s' a' show ?thesis
    by (simp add: ex_stuck_negative_def ex_stuck_def ex_sweep_def)
qed









end
